theory Spec2Isabelle
  imports Main "HOL-Library.AList"
begin

section \<open>Data model\<close>

text \<open>
  The development embeds \<^verbatim>\<open>src/index.js\<close> (kue-unique): the registry of unique
  jobs kept under one redis key, and the patched \<^verbatim>\<open>save\<close> and \<^verbatim>\<open>remove\<close> of a job.

  A job identifier is a number or a string; two identifiers are equal exactly when
  JavaScript's \<^verbatim>\<open>===\<close> says so (\<open>Num 5\<close> and \<open>Str ''5''\<close> differ). A JavaScript
  object is the list of its own enumerable properties in property order; the registry
  document is such an object, from uniqueness keys to job identifiers.
\<close>

datatype jobid = Num int | Str string

datatype error = Error string

type_synonym 'v object = "(string \<times> 'v) list"

type_synonym doc = "jobid object"

text \<open>
  What \<^verbatim>\<open>JSON.parse\<close> can return for the content of the registry key: \<^verbatim>\<open>null\<close>, an
  object, or a number or boolean. (JSON strings and arrays, and values of a document
  other than numbers and strings, are not modelled.)
\<close>

datatype scalar = Number int | Boolean bool

datatype json = JNull | JScalar scalar | JObject doc

text \<open>
  A string stored in redis is represented by what \<^verbatim>\<open>JSON.parse\<close> makes of it:
  \<open>Unparseable\<close> stands for every string on which it throws a SyntaxError, \<open>Text v\<close>
  for a string that it parses to \<open>v\<close>. The first argument a redis \<^verbatim>\<open>get\<close> hands to
  its callback besides the error is \<^verbatim>\<open>undefined\<close> (on an error), \<^verbatim>\<open>null\<close> (no such
  key) or the stored string.
\<close>

datatype blob = Unparseable | Text json

datatype reply = Undefined | Nil | Bulk blob

datatype exn = SyntaxError | TypeError

fun JSON_parse :: "reply \<Rightarrow> exn + json" where
  "JSON_parse Undefined = Inl SyntaxError"
| "JSON_parse Nil = Inr JNull"
| "JSON_parse (Bulk Unparseable) = Inl SyntaxError"
| "JSON_parse (Bulk (Text v)) = Inr v"

definition JSON_stringify :: "json \<Rightarrow> blob" where
  "JSON_stringify v = Text v"

text \<open>
  A job as far as this module reads and writes it: its \<^verbatim>\<open>id\<close> (\<^verbatim>\<open>undefined\<close> until
  the queue engine has saved it), its \<^verbatim>\<open>data\<close> (an object, or \<^verbatim>\<open>undefined\<close>) and the
  flag \<^verbatim>\<open>alreadyExist\<close>.
\<close>

record job =
  jid :: "jobid option"
  data :: "string object option"
  alreadyExist :: bool

text \<open>
  The value of \<^verbatim>\<open>object[key]\<close>: the value of an own property, or a member that the
  object inherits from its prototype (\<^verbatim>\<open>constructor\<close>, \<^verbatim>\<open>toString\<close>, ...), of which only
  the name is kept.
\<close>

datatype property = Own jobid | Inherited string

text \<open>
  Every call that leaves the module is logged: the two redis commands on the registry
  key and the three entry points of the queue engine. For \<^verbatim>\<open>remove\<close>, which runs two
  tasks under \<^verbatim>\<open>async.parallel\<close>, the log also records each task reporting its result
  and the call of the final callback.
\<close>

datatype task = removeJob | removeUniqueData

datatype event =
    ClientGet
  | ClientSet blob
  | PreviousSave job
  | JobGet "property option"
  | PreviousRemove job
  | TaskDone task "error option"
  | Finalize "error option"

text \<open>
  The world outside the module: the content of the registry key (\<open>None\<close> when the key
  does not exist), the outcomes of the coming redis commands (\<open>Some e\<close>: the command
  fails with \<open>e\<close>; an exhausted list: no more failures), the log, and the state of the
  queue engine.
\<close>

record 'q world =
  cell :: "blob option"
  faults :: "error option list"
  trace :: "event list"
  queue :: 'q

text \<open>
  The queue engine (kue) is a parameter: \<^verbatim>\<open>previousSave\<close> and \<^verbatim>\<open>previousRemove\<close> are the
  methods this module replaces, \<^verbatim>\<open>Job.get\<close> fetches a job by identifier (it is handed
  whatever the lookup found). \<^verbatim>\<open>previousSave\<close> returns the job as it left it (it assigns
  the identifier).
\<close>

record 'q kue =
  previousSave :: "job \<Rightarrow> 'q \<Rightarrow> (error option \<times> job) \<times> 'q"
  Job_get :: "property option \<Rightarrow> 'q \<Rightarrow> (error option \<times> job option)
      \<times> 'q"
  previousRemove :: "job \<Rightarrow> 'q \<Rightarrow> error option \<times> 'q"

section \<open>JavaScript objects\<close>

text \<open>
  Own properties are enumerated with the array indices first, in ascending order, and
  the other names after them in the order of their creation. An array index is the
  decimal numeral, without leading zeros, of a number below \<open>2\<^sup>3\<^sup>2 - 1\<close>.
\<close>

definition digit :: "char \<Rightarrow> int option" where
  "digit c =
     map_of [(CHR ''0'', 0), (CHR ''1'', 1), (CHR ''2'', 2), (CHR ''3'', 3), (CHR ''4'', 4),
             (CHR ''5'', 5), (CHR ''6'', 6), (CHR ''7'', 7), (CHR ''8'', 8), (CHR ''9'', 9)] c"

definition decimal :: "string \<Rightarrow> int option" where
  "decimal s =
     foldl (\<lambda>acc c. case (acc, digit c) of (Some n,
         Some k) \<Rightarrow> Some (10 * n + k) | _ \<Rightarrow> None)
       (Some 0) s"

definition array_index :: "string \<Rightarrow> int option" where
  "array_index s =
     (case s of
        [] \<Rightarrow> None
      | c # cs \<Rightarrow>
          if c = CHR ''0'' \<and> cs \<noteq> [] then None
          else (case decimal s of
                  Some n \<Rightarrow> if n < 4294967295 then Some n else None
                | None \<Rightarrow> None))"

text \<open>The place of a new array index \<open>n\<close>: before the first property that is no smaller index.\<close>

fun place :: "int \<Rightarrow> string \<Rightarrow> 'v \<Rightarrow> 'v object \<Rightarrow> 'v
    object" where
  "place n key v [] = [(key, v)]"
| "place n key v (p # ps) =
     (case array_index (fst p) of
        Some m \<Rightarrow> if m < n then p # place n key v ps else (key, v) # p # ps
      | None \<Rightarrow> (key, v) # p # ps)"

text \<open>
  The assignment \<^verbatim>\<open>object[key] = v\<close> of a number, a string or a function to a plain
  object. Under the name \<^verbatim>\<open>__proto__\<close> it creates no property (the name is the
  accessor of the prototype, and a value that is no object is ignored; a function that
  becomes the prototype adds no own property either). A property that exists keeps its
  place; a new one is placed as the enumeration order says.
\<close>

definition put :: "string \<Rightarrow> 'v \<Rightarrow> 'v object \<Rightarrow> 'v object" where
  "put key v object =
     (if key = ''__proto__'' then object
      else if key \<in> set (map fst object) then AList.update key v object
      else (case array_index key of
              Some n \<Rightarrow> place n key v object
            | None \<Rightarrow> object @ [(key, v)]))"

text \<open>
  The names that \<^verbatim>\<open>key in Object(value)\<close> finds beyond the own properties: the members
  of \<^verbatim>\<open>Object.prototype\<close>, and before them those of \<^verbatim>\<open>Number.prototype\<close> or
  \<^verbatim>\<open>Boolean.prototype\<close> for a number or a boolean.
\<close>

definition object_prototype :: "string list" where
  "object_prototype =
     [''constructor'', ''__defineGetter__'', ''__defineSetter__'', ''hasOwnProperty'',
      ''__lookupGetter__'', ''__lookupSetter__'', ''isPrototypeOf'', ''propertyIsEnumerable'',
      ''toString'', ''valueOf'', ''__proto__'', ''toLocaleString'']"

definition number_prototype :: "string list" where
  "number_prototype =
     [''constructor'', ''toExponential'', ''toFixed'', ''toPrecision'', ''toString'',
      ''valueOf'', ''toLocaleString'']"

definition boolean_prototype :: "string list" where
  "boolean_prototype = [''constructor'', ''toString'', ''valueOf'']"

definition inherited :: "json \<Rightarrow> string list" where
  "inherited value =
     (case value of
        JNull \<Rightarrow> []
      | JScalar (Number n) \<Rightarrow> number_prototype @ object_prototype
      | JScalar (Boolean b) \<Rightarrow> boolean_prototype @ object_prototype
      | JObject d \<Rightarrow> object_prototype)"

definition own :: "json \<Rightarrow> doc" where
  "own value = (case value of JObject d \<Rightarrow> d | _ \<Rightarrow> [])"

text \<open>\<^verbatim>\<open>key in Object(value)\<close> and \<^verbatim>\<open>Object(value)[key]\<close>.\<close>

definition has_in :: "string \<Rightarrow> json \<Rightarrow> bool" where
  "has_in key value \<longleftrightarrow> key \<in> set (map fst (own value)) \<or> key \<in> set
      (inherited value)"

definition get_property :: "json \<Rightarrow> string \<Rightarrow> property" where
  "get_property value key =
     (case map_of (own value) key of Some v \<Rightarrow> Own v | None \<Rightarrow> Inherited key)"

section \<open>The redis client on the registry key\<close>

definition client_get :: "'q world \<Rightarrow> (error option \<times> reply) \<times> 'q world"
    where
  "client_get w =
     (let w' = w\<lparr>faults := tl (faults w), trace := trace w @ [ClientGet]\<rparr>
      in case faults w of
           Some e # _ \<Rightarrow> ((Some e, Undefined), w')
         | _ \<Rightarrow> ((None,
             case cell w of None \<Rightarrow> Nil | Some b \<Rightarrow> Bulk b), w'))"

definition client_set :: "blob \<Rightarrow> 'q world \<Rightarrow> error option \<times> 'q
    world" where
  "client_set b w =
     (let w' = w\<lparr>faults := tl (faults w), trace := trace w @ [ClientSet b]\<rparr>
      in case faults w of
           Some e # _ \<Rightarrow> (Some e, w')
         | _ \<Rightarrow> (None, w'\<lparr>cell := Some b\<rparr>))"

section \<open>The lodash functions the module calls\<close>

definition keys :: "'v object \<Rightarrow> string list" where
  "keys object = map fst object"

definition values' :: "'v object \<Rightarrow> 'v list" where
  "values' object = map snd object"

definition first :: "'a list \<Rightarrow> 'a option" where
  "first array = (case array of [] \<Rightarrow> None | x # _ \<Rightarrow> Some x)"

text \<open>
  \<^verbatim>\<open>_.pick(object, key)\<close> is the empty object for \<^verbatim>\<open>null\<close>; otherwise it starts from an
  empty result and, if \<^verbatim>\<open>key in Object(object)\<close>, assigns
  \<^verbatim>\<open>result[key] = object[key]\<close>. So it finds inherited members as well as own
  properties, and it never finds \<^verbatim>\<open>__proto__\<close>.
\<close>

definition pick :: "json \<Rightarrow> string \<Rightarrow> property object" where
  "pick object key =
     (case object of
        JNull \<Rightarrow> []
      | _ \<Rightarrow> if has_in key object then put key (get_property object key) [] else [])"

text \<open>
  \<^verbatim>\<open>_.omit(object, predicate)\<close> starts from an empty result and assigns to it, in
  enumeration order, every own property whose value the predicate rejects. Numbers,
  booleans and \<^verbatim>\<open>null\<close> have no enumerable property.
\<close>

definition omit :: "json \<Rightarrow> (jobid \<Rightarrow> bool) \<Rightarrow> json" where
  "omit object predicate =
     (case object of
        JObject d \<Rightarrow>
          JObject (fold (\<lambda>(k,
              v) result. if predicate v then result else put k v result) d [])
      | _ \<Rightarrow> JObject [])"

text \<open>
  \<^verbatim>\<open>_.merge(object, source)\<close> assigns every own property of \<open>source\<close> to \<open>object\<close> (the
  values here are identifiers, so nothing is merged recursively). An \<open>object\<close> that is
  not an object is returned as it is.
\<close>

definition merge :: "json \<Rightarrow> doc \<Rightarrow> json" where
  "merge object source =
     (case object of
        JObject d \<Rightarrow> JObject (fold (\<lambda>(k, v). put k v) source d)
      | other \<Rightarrow> other)"

section \<open>The registry\<close>

text \<open>\<^verbatim>\<open>Job.getUniqueJobsData\<close>: the \<^verbatim>\<open>try\<close>/\<^verbatim>\<open>catch\<close> and the correction of null.\<close>

definition getUniqueJobsData :: "'q world \<Rightarrow> (error option \<times> json) \<times> 'q
    world" where
  "getUniqueJobsData w =
     (case client_get w of
        ((error, reply), w') \<Rightarrow>
          let data = (case JSON_parse reply of Inl e \<Rightarrow> JObject [] | Inr v
              \<Rightarrow> v);
              data = (if data = JNull then JObject [] else data)
          in ((error, data), w'))"

text \<open>
  \<^verbatim>\<open>async.waterfall\<close> runs its tasks in order, hands each the results of the one
  before, and on the first error skips the rest and calls the final callback with the
  arguments that task gave. So \<^verbatim>\<open>Job.getUniqueJobData\<close> hands its callback either the
  error of the read together with the data read (\<open>Inl\<close>), or no error and the picked
  object (\<open>Inr\<close>).
\<close>

definition getUniqueJobData ::
  "string \<Rightarrow> 'q world \<Rightarrow> ((error \<times> json) + property object) \<times>
      'q world" where
  "getUniqueJobData unique w =
     (case getUniqueJobsData w of
        ((Some e, uniqueJobsData), w') \<Rightarrow> (Inl (e, uniqueJobsData), w')
      | ((None, uniqueJobsData), w') \<Rightarrow> (Inr (pick uniqueJobsData unique), w'))"

text \<open>
  \<^verbatim>\<open>Job.removeUniqueJobData\<close>. The identifier is \<^verbatim>\<open>this.id\<close> of the job being removed,
  \<^verbatim>\<open>undefined\<close> (\<open>None\<close>) for a job that was never saved; no stored value is \<^verbatim>\<open>===\<close> to it
  then.
\<close>

definition removeUniqueJobData ::
  "jobid option \<Rightarrow> 'q world \<Rightarrow> (error option \<times> json) \<times> 'q
      world" where
  "removeUniqueJobData id' w =
     (case getUniqueJobsData w of
        ((Some e, uniqueJobsData), w') \<Rightarrow> ((Some e, uniqueJobsData), w')
      | ((None, uniqueJobsData), w') \<Rightarrow>
          let uniqueJobsData = omit uniqueJobsData (\<lambda>value. Some value = id')
          in case client_set (JSON_stringify uniqueJobsData) w' of
               (error, w'') \<Rightarrow> ((error, uniqueJobsData), w''))"

text \<open>\<^verbatim>\<open>Job.saveUniqueJobsData\<close>.\<close>

definition saveUniqueJobsData ::
  "doc \<Rightarrow> 'q world \<Rightarrow> (error option \<times> json) \<times> 'q world" where
  "saveUniqueJobsData uniqueJobData w =
     (case getUniqueJobsData w of
        ((Some e, uniqueJobsData), w') \<Rightarrow> ((Some e, uniqueJobsData), w')
      | ((None, uniqueJobsData), w') \<Rightarrow>
          let uniqueJobsData = merge uniqueJobsData uniqueJobData
          in case client_set (JSON_stringify uniqueJobsData) w' of
               (error, w'') \<Rightarrow> ((error, uniqueJobsData), w''))"

section \<open>Marking and submitting a job\<close>

text \<open>
  \<^verbatim>\<open>Job.prototype.unique\<close>: \<^verbatim>\<open>_.merge(this.data || {}, {unique: unique})\<close> assigns the
  property to \<^verbatim>\<open>this.data\<close> when that is an object; otherwise the target is a new
  object, which nothing refers to afterwards, and the job is returned as it was.
\<close>

definition unique :: "job \<Rightarrow> string \<Rightarrow> job" where
  "unique this key =
     (case data this of
        Some d \<Rightarrow> this\<lparr>data := Some (AList.update ''unique'' key d)\<rparr>
      | None \<Rightarrow> this)"

text \<open>
  \<^verbatim>\<open>this.data && this.data.unique\<close>: the key when the expression is truthy, \<open>None\<close>
  when it is falsy (no data, no property \<^verbatim>\<open>unique\<close>, or the empty string).
\<close>

definition isUniqueJob :: "job \<Rightarrow> string option" where
  "isUniqueJob this =
     (case data this of
        None \<Rightarrow> None
      | Some d \<Rightarrow>
          (case map_of d ''unique'' of
             None \<Rightarrow> None
           | Some u \<Rightarrow> if u = [] then None else Some u))"

text \<open>
  What a call of \<^verbatim>\<open>save\<close> comes to: the callback \<^verbatim>\<open>done\<close> is called with an error
  (or none) and a job (or none), or an exception is thrown and \<^verbatim>\<open>done\<close> is never
  called.
\<close>

datatype outcome = Thrown exn | Done "error option" "job option"

text \<open>The second task of the waterfall in \<^verbatim>\<open>save\<close>.\<close>

definition tryGetExistingOrSaveJob ::
  "'q kue \<Rightarrow> job \<Rightarrow> property object \<Rightarrow> 'q world \<Rightarrow>
     (error option \<times> job option) \<times> 'q world" where
  "tryGetExistingOrSaveJob kue this uniqueJobData w =
     (let exists = length (keys uniqueJobData) > 0
      in if exists then
           (let id' = first (values' uniqueJobData)
            in case Job_get kue id' (queue w) of
                 ((error, job), q) \<Rightarrow>
                   ((error, map_option (\<lambda>j. j\<lparr>alreadyExist := True\<rparr>) job),
                    w\<lparr>queue := q, trace := trace w @ [JobGet id']\<rparr>))
         else
           (case previousSave kue this (queue w) of
              ((error, this'), q) \<Rightarrow>
                ((error, Some this'),
                 w\<lparr>queue := q, trace := trace w @ [PreviousSave this]\<rparr>)))"

text \<open>
  The third task, \<^verbatim>\<open>_saveUniqueJobsData\<close>. Reading \<^verbatim>\<open>job.data.unique\<close> throws a
  TypeError when \<^verbatim>\<open>job\<close> or \<^verbatim>\<open>job.data\<close> is undefined. A job whose data has no
  property \<^verbatim>\<open>unique\<close> is registered under the property name \<^verbatim>\<open>undefined\<close>. The object
  \<^verbatim>\<open>uniqueJobData\<close> is made by the assignment \<^verbatim>\<open>uniqueJobData[key] = job.id\<close> to an empty
  object; a job without an identifier contributes \<^verbatim>\<open>{key: undefined}\<close>, which \<^verbatim>\<open>_.merge\<close>
  skips.
\<close>

definition saveUniqueJobsData' :: "job option \<Rightarrow> 'q world \<Rightarrow> outcome
    \<times> 'q world" where
  "saveUniqueJobsData' job w =
     (case job of
        None \<Rightarrow> (Thrown TypeError, w)
      | Some j \<Rightarrow>
          (case data j of
             None \<Rightarrow> (Thrown TypeError, w)
           | Some d \<Rightarrow>
               let key = (case map_of d ''unique'' of None \<Rightarrow> ''undefined'' | Some u
                   \<Rightarrow> u);
                   uniqueJobData = (case jid j of None \<Rightarrow> [] | Some i \<Rightarrow> put
                       key i [])
               in case saveUniqueJobsData uniqueJobData w of
                    ((error, uniqueJobsData), w') \<Rightarrow> (Done error (Some j), w')))"

text \<open>
  \<^verbatim>\<open>Job.prototype.save\<close>. When the lookup fails, the value handed to \<^verbatim>\<open>done\<close> beside
  the error is the data that \<^verbatim>\<open>getUniqueJobsData\<close> read, not a job: \<open>None\<close> here.
  On the plain path \<^verbatim>\<open>done\<close> is the engine's to call; the job reported is \<^verbatim>\<open>this\<close> as
  the engine left it.
\<close>

definition save :: "'q kue \<Rightarrow> job \<Rightarrow> 'q world \<Rightarrow> outcome \<times>
    'q world" where
  "save kue this w =
     (case isUniqueJob this of
        Some unique' \<Rightarrow>
          (case getUniqueJobData unique' w of
             (Inl (e, uniqueJobsData), w1) \<Rightarrow> (Done (Some e) None, w1)
           | (Inr uniqueJobData, w1) \<Rightarrow>
               (case tryGetExistingOrSaveJob kue this uniqueJobData w1 of
                  ((Some e, job), w2) \<Rightarrow> (Done (Some e) job, w2)
                | ((None, job), w2) \<Rightarrow> saveUniqueJobsData' job w2))
      | None \<Rightarrow>
          (case previousSave kue this (queue w) of
             ((error, this'), q) \<Rightarrow>
               (Done error (Some this'),
                w\<lparr>queue := q, trace := trace w @ [PreviousSave this]\<rparr>)))"

section \<open>Removing a job\<close>

text \<open>
  \<^verbatim>\<open>Job.prototype.remove\<close> starts two tasks under \<^verbatim>\<open>async.parallel\<close>. Each task waits
  for input and output to complete, and completions arrive in an order that the module
  does not control: a run of \<^verbatim>\<open>remove\<close> is driven by a schedule, the list of the tasks
  whose pending operation completes next. The task \<^verbatim>\<open>removeJob\<close> has one such
  operation (the engine's removal); \<^verbatim>\<open>removeUniqueData\<close> has two, the read of the
  registry and then the write (\<open>Saving\<close> holds the document being written).

  \<^verbatim>\<open>async.parallel\<close> counts the tasks it started; when a task reports, the count goes
  down, and the final callback is called, once only, as soon as a task reports an error
  or the count reaches zero.
\<close>

datatype progress = Running | Saving json | Finished

record 'q parallel =
  env :: "'q world"
  removeJob_state :: progress
  removeUniqueData_state :: progress
  completed :: nat
  called :: bool

definition record_event :: "event \<Rightarrow> 'q parallel \<Rightarrow> 'q parallel" where
  "record_event ev s = s\<lparr>env := (env s)\<lparr>trace := trace (env s) @ [ev]\<rparr>\<rparr>"

definition finalize :: "error option \<Rightarrow> 'q parallel \<Rightarrow> 'q parallel" where
  "finalize error s = (if called s then s else record_event (Finalize error) (s\<lparr>called :=
      True\<rparr>))"

definition task_done :: "task \<Rightarrow> error option \<Rightarrow> 'q parallel \<Rightarrow>
    'q parallel" where
  "task_done t error s =
     (let s' = record_event (TaskDone t error) (s\<lparr>completed := completed s - 1\<rparr>)
      in if error \<noteq> None then finalize error s'
         else if completed s' = 0 then finalize None s'
         else s')"

definition deliver :: "'q kue \<Rightarrow> job \<Rightarrow> task \<Rightarrow> 'q parallel
    \<Rightarrow> 'q parallel" where
  "deliver kue this t s =
     (case t of
        removeJob \<Rightarrow>
          (case removeJob_state s of
             Running \<Rightarrow>
               (case previousRemove kue this (queue (env s)) of
                  (error, q) \<Rightarrow>
                    task_done removeJob error
                      (s\<lparr>env := (env s)\<lparr>queue := q,
                                          trace := trace (env s) @ [PreviousRemove this]\<rparr>,
                         removeJob_state := Finished\<rparr>))
           | _ \<Rightarrow> s)
      | removeUniqueData \<Rightarrow>
          (case removeUniqueData_state s of
             Running \<Rightarrow>
               (case getUniqueJobsData (env s) of
                  ((Some e, uniqueJobsData), w') \<Rightarrow>
                    task_done removeUniqueData (Some e)
                      (s\<lparr>env := w', removeUniqueData_state := Finished\<rparr>)
                | ((None, uniqueJobsData), w') \<Rightarrow>
                    s\<lparr>env := w',
                      removeUniqueData_state :=
                        Saving (omit uniqueJobsData (\<lambda>value. Some value = jid
                            this))\<rparr>)
           | Saving uniqueJobsData \<Rightarrow>
               (case client_set (JSON_stringify uniqueJobsData) (env s) of
                  (error, w') \<Rightarrow>
                    task_done removeUniqueData error
                      (s\<lparr>env := w', removeUniqueData_state := Finished\<rparr>))
           | Finished \<Rightarrow> s))"

definition start :: "'q world \<Rightarrow> 'q parallel" where
  "start w = \<lparr>env = w, removeJob_state = Running, removeUniqueData_state = Running,
              completed = 2, called = False\<rparr>"

definition remove :: "'q kue \<Rightarrow> job \<Rightarrow> task list \<Rightarrow> 'q world
    \<Rightarrow> 'q parallel" where
  "remove kue this schedule w = fold (deliver kue this) schedule (start w)"

section \<open>Notions used to state the properties\<close>

text \<open>The outcome of the next redis command.\<close>

definition next_fault :: "'q world \<Rightarrow> error option" where
  "next_fault w = (case faults w of [] \<Rightarrow> None | f # _ \<Rightarrow> f)"

text \<open>No redis command fails from now on.\<close>

definition no_faults :: "'q world \<Rightarrow> bool" where
  "no_faults w = list_all (\<lambda>f. f = None) (faults w)"

text \<open>
  The data that a read of the registry key yields when the redis command succeeds: the
  empty mapping for a missing key, for a string that does not parse and for the JSON
  text \<^verbatim>\<open>null\<close>, and the parsed value otherwise.
\<close>

definition content :: "'q world \<Rightarrow> json" where
  "content w =
     (case cell w of
        None \<Rightarrow> JObject []
      | Some Unparseable \<Rightarrow> JObject []
      | Some (Text JNull) \<Rightarrow> JObject []
      | Some (Text v) \<Rightarrow> v)"

text \<open>The world after one redis command has been issued and has not changed the key.\<close>

definition issued :: "event \<Rightarrow> 'q world \<Rightarrow> 'q world" where
  "issued ev w = w\<lparr>faults := tl (faults w), trace := trace w @ [ev]\<rparr>"

text \<open>
  The object \<^verbatim>\<open>uniqueJobData\<close> that the registration step of \<^verbatim>\<open>save\<close> makes for a job
  \<open>j\<close> that has data: the identifier of \<open>j\<close> under the key of \<open>j\<close>.
\<close>

definition registration :: "job \<Rightarrow> doc" where
  "registration j =
     (case data j of
        None \<Rightarrow> []
      | Some dj \<Rightarrow>
          (case jid j of
             None \<Rightarrow> []
           | Some i \<Rightarrow>
               put (case map_of dj ''unique'' of None \<Rightarrow> ''undefined'' | Some u
                   \<Rightarrow> u) i []))"

text \<open>
  Reading the log of a run of \<^verbatim>\<open>remove\<close>: what a task reported (\<open>None\<close>: no error),
  the errors that tasks reported, in the order of the reports, and the arguments of the
  calls of the final callback.
\<close>

definition reports_of :: "task \<Rightarrow> event list \<Rightarrow> error option list" where
  "reports_of t evs =
     concat (map (\<lambda>ev. case ev of TaskDone t' err \<Rightarrow> if t' = t then [err] else
         [] | _ \<Rightarrow> []) evs)"

definition reported_errors :: "event list \<Rightarrow> error list" where
  "reported_errors evs =
     concat (map (\<lambda>ev. case ev of TaskDone t (Some e) \<Rightarrow> [e] | _ \<Rightarrow>
         []) evs)"

definition final_calls :: "event list \<Rightarrow> error option list" where
  "final_calls evs = concat (map (\<lambda>ev. case ev of Finalize r \<Rightarrow> [r] | _
      \<Rightarrow> []) evs)"

text \<open>
  The number of tasks that have not finished, and what holds after every delivery: the
  counter of \<^verbatim>\<open>async.parallel\<close> is that number, and the final callback has been called
  as the errors reported so far and the counter say.
\<close>

definition pending :: "'q parallel \<Rightarrow> nat" where
  "pending s =
     (if removeJob_state s = Finished then 0 else 1) +
     (if removeUniqueData_state s = Finished then 0 else 1)"

definition run_invariant :: "event list \<Rightarrow> 'q parallel \<Rightarrow> bool" where
  "run_invariant tr0 s \<longleftrightarrow>
     (\<exists>evs. trace (env s) = tr0 @ evs \<and>
            completed s = pending s \<and>
            (called s \<longleftrightarrow> final_calls evs \<noteq> []) \<and>
            final_calls evs =
              (case reported_errors evs of
                 e # _ \<Rightarrow> [Some e]
               | [] \<Rightarrow> if completed s = 0 then [None] else []))"

text \<open>
  What also holds after every delivery of a run that started in the world \<open>w\<close>: a task
  that has not finished has reported nothing and has left its part of the world alone; a
  task that has finished has reported once, what its operation returned, and has left the
  world as its operation leaves it. The operation of \<^verbatim>\<open>removeJob\<close> is the engine's
  removal, that of \<^verbatim>\<open>removeUniqueData\<close> is \<^verbatim>\<open>Job.removeUniqueJobData\<close>.
\<close>

definition report_invariant :: "'q kue \<Rightarrow> job \<Rightarrow> 'q world \<Rightarrow> 'q
    parallel \<Rightarrow> bool" where
  "report_invariant kue this w s \<longleftrightarrow>
     (\<exists>evs. trace (env s) = trace w @ evs \<and>
        (case removeJob_state s of
           Running \<Rightarrow> queue (env s) = queue w \<and> reports_of removeJob evs = []
         | Saving x \<Rightarrow> False
         | Finished \<Rightarrow>
             queue (env s) = snd (previousRemove kue this (queue w)) \<and>
             reports_of removeJob evs = [fst (previousRemove kue this (queue w))]) \<and>
        (case removeUniqueData_state s of
           Running \<Rightarrow>
             cell (env s) = cell w \<and> faults (env s) = faults w \<and>
             reports_of removeUniqueData evs = []
         | Saving x \<Rightarrow>
             cell (env s) = cell w \<and> faults (env s) = tl (faults w) \<and> next_fault w =
                 None \<and>
             x = omit (content w) (\<lambda>value. Some value = jid this) \<and>
             reports_of removeUniqueData evs = []
         | Finished \<Rightarrow>
             cell (env s) = cell (snd (removeUniqueJobData (jid this) w)) \<and>
             faults (env s) = faults (snd (removeUniqueJobData (jid this) w)) \<and>
             reports_of removeUniqueData evs = [fst (fst (removeUniqueJobData (jid this) w))]))"

text \<open>How far a task has come, as a number.\<close>

definition stage :: "progress \<Rightarrow> nat" where
  "stage p = (case p of Running \<Rightarrow> 0 | Saving x \<Rightarrow> 1 | Finished
      \<Rightarrow> 2)"

text \<open>
  What the properties of two submissions in a row ask of the queue engine: saving a job
  leaves its data alone, and a job fetched by identifier carries that identifier (kue's
  \<^verbatim>\<open>Job.get\<close> assigns it to the job it builds).
\<close>

definition engine_contract :: "'q kue \<Rightarrow> bool" where
  "engine_contract kue \<longleftrightarrow>
     (\<forall>this q. data (snd (fst (previousSave kue this q))) = data this) \<and>
     (\<forall>i q j. snd (fst (Job_get kue i q)) = Some j \<longrightarrow> map_option Own (jid
         j) = i)"

text \<open>
  A queue engine in memory, for running the module on examples: it numbers the jobs it
  saves from 1 and keeps them in a list.
\<close>

definition memory_kue :: "job list kue" where
  "memory_kue =
     \<lparr>previousSave = (\<lambda>this q.
        let j = this\<lparr>jid := Some (Num (int (length q) + 1))\<rparr> in ((None, j), q @ [j])),
      Job_get = (\<lambda>i q.
        case filter (\<lambda>j. map_option Own (jid j) = i) q of
          [] \<Rightarrow> ((Some (Error ''job doesnt exist''), None), q)
        | j # _ \<Rightarrow> ((None, Some j), q)),
      previousRemove = (\<lambda>this q. (None,
          filter (\<lambda>j. jid j \<noteq> jid this) q))\<rparr>"

text \<open>An engine whose every call fails, and one whose fetch finds nothing and says nothing.\<close>

definition failing_kue :: "unit kue" where
  "failing_kue =
     \<lparr>previousSave = (\<lambda>this q. ((Some (Error ''save failed''), this), q)),
      Job_get = (\<lambda>i q. ((Some (Error ''get failed''), None), q)),
      previousRemove = (\<lambda>this q. (Some (Error ''remove failed''), q))\<rparr>"

definition silent_kue :: "unit kue" where
  "silent_kue =
     \<lparr>previousSave = (\<lambda>this q. ((None, this), q)),
      Job_get = (\<lambda>i q. ((None, None), q)),
      previousRemove = (\<lambda>this q. (None, q))\<rparr>"

section \<open>The registry: reading\<close>

lemma client_get_ok:
  "next_fault w = None \<Longrightarrow>
   client_get w = ((None, case cell w of None \<Rightarrow> Nil | Some b \<Rightarrow> Bulk b),
       issued ClientGet w)"
  by (auto simp: client_get_def next_fault_def issued_def Let_def split: list.splits option.splits)

lemma client_get_fail:
  "faults w = Some e # fs \<Longrightarrow> client_get w = ((Some e, Undefined),
      issued ClientGet w)"
  by (simp add: client_get_def issued_def Let_def)

lemma client_set_ok:
  "next_fault w = None \<Longrightarrow> client_set b w = (None,
      (issued (ClientSet b) w)\<lparr>cell := Some b\<rparr>)"
  by (auto simp: client_set_def next_fault_def issued_def Let_def split: list.splits option.splits)

lemma client_set_fail:
  "faults w = Some e # fs \<Longrightarrow> client_set b w = (Some e, issued (ClientSet b) w)"
  by (simp add: client_set_def issued_def Let_def)

lemma getUniqueJobsData_ok:
  "next_fault w = None \<Longrightarrow> getUniqueJobsData w = ((None, content w),
      issued ClientGet w)"
  by (auto simp: getUniqueJobsData_def client_get_ok content_def Let_def
           split: option.splits blob.splits json.splits)

lemma getUniqueJobsData_fail:
  "faults w = Some e # fs \<Longrightarrow>
   getUniqueJobsData w = ((Some e, JObject []), issued ClientGet w)"
  by (simp add: getUniqueJobsData_def client_get_fail)

lemma next_fault_cases:
  "next_fault w = None \<or> (\<exists>e fs. faults w = Some e # fs)"
  by (auto simp: next_fault_def split: list.splits)

lemma next_fault_fail: "faults w = Some e # fs \<Longrightarrow> next_fault w = Some e"
  by (simp add: next_fault_def)

lemma getUniqueJobsData_error:
  "fst (fst (getUniqueJobsData w)) = next_fault w"
  using next_fault_cases [of w]
  by (auto simp: getUniqueJobsData_ok getUniqueJobsData_fail next_fault_fail)

lemma getUniqueJobsData_world:
  "snd (getUniqueJobsData w) = issued ClientGet w"
  using next_fault_cases [of w]
  by (auto simp: getUniqueJobsData_ok getUniqueJobsData_fail)

lemma content_empty:
  "cell w \<in> {None, Some Unparseable,
      Some (Text JNull)} \<Longrightarrow> content w = JObject []"
  by (auto simp: content_def)

section \<open>The registry: store errors\<close>

lemma issued_simps [simp]:
  "cell (issued ev w) = cell w"
  "faults (issued ev w) = tl (faults w)"
  "trace (issued ev w) = trace w @ [ev]"
  "queue (issued ev w) = queue w"
  by (simp_all add: issued_def)

lemma content_issued [simp]: "content (issued ev w) = content w"
  by (simp add: content_def)

lemma saveUniqueJobsData_read_fail:
  "faults w = Some e # fs \<Longrightarrow>
   saveUniqueJobsData source w = ((Some e, JObject []), issued ClientGet w)"
  by (simp add: saveUniqueJobsData_def getUniqueJobsData_fail)

lemma removeUniqueJobData_read_fail:
  "faults w = Some e # fs \<Longrightarrow>
   removeUniqueJobData i w = ((Some e, JObject []), issued ClientGet w)"
  by (simp add: removeUniqueJobData_def getUniqueJobsData_fail)

lemma getUniqueJobData_read_fail:
  "faults w = Some e # fs \<Longrightarrow>
   getUniqueJobData key w = (Inl (e, JObject []), issued ClientGet w)"
  by (simp add: getUniqueJobData_def getUniqueJobsData_fail)

lemma getUniqueJobData_ok:
  "next_fault w = None \<Longrightarrow>
   getUniqueJobData key w = (Inr (pick (content w) key), issued ClientGet w)"
  by (simp add: getUniqueJobData_def getUniqueJobsData_ok)

lemma saveUniqueJobsData_read_ok:
  "next_fault w = None \<Longrightarrow>
   saveUniqueJobsData source w =
     (case client_set (JSON_stringify (merge (content w) source)) (issued ClientGet w) of
        (error, w'') \<Rightarrow> ((error, merge (content w) source), w''))"
  by (simp add: saveUniqueJobsData_def getUniqueJobsData_ok Let_def)

lemma removeUniqueJobData_read_ok:
  "next_fault w = None \<Longrightarrow>
   removeUniqueJobData i w =
     (case client_set (JSON_stringify (omit (content w) (\<lambda>value. Some value = i)))
             (issued ClientGet w) of
        (error,
            w'') \<Rightarrow> ((error, omit (content w) (\<lambda>value. Some value = i)), w''))"
  by (simp add: removeUniqueJobData_def getUniqueJobsData_ok Let_def)

text \<open>
  Claim C8. When the read of the registry fails with an error, lookup, merge and removal
  by identifier each hand exactly that error to their callback, having issued the one
  \<^verbatim>\<open>get\<close> and nothing else. When the read succeeds and the write fails, merge and
  removal hand over exactly the error of the write, having issued one \<^verbatim>\<open>get\<close> and one
  \<^verbatim>\<open>set\<close>: nothing is tried again, and the content of the key is as it was.
\<close>

theorem store_errors_surface:
  "(faults w = Some e # fs \<longrightarrow>
      getUniqueJobData key w = (Inl (e, JObject []), issued ClientGet w) \<and>
      saveUniqueJobsData source w = ((Some e, JObject []), issued ClientGet w) \<and>
      removeUniqueJobData i w = ((Some e, JObject []), issued ClientGet w)) \<and>
   (faults w' = None # Some e' # fs' \<longrightarrow>
      saveUniqueJobsData source w' =
        ((Some e', merge (content w') source),
         issued (ClientSet (JSON_stringify (merge (content w') source))) (issued ClientGet w'))
             \<and>
      removeUniqueJobData i w' =
        ((Some e', omit (content w') (\<lambda>value. Some value = i)),
         issued (ClientSet (JSON_stringify (omit (content w') (\<lambda>value. Some value = i))))
           (issued ClientGet w')))"
proof (intro conjI impI)
  assume f: "faults w' = None # Some e' # fs'"
  then have n: "next_fault w' = None"
    by (simp add: next_fault_def)
  from f have g: "faults (issued ClientGet w') = Some e' # fs'"
    by simp
  show "saveUniqueJobsData source w' =
        ((Some e', merge (content w') source),
         issued (ClientSet (JSON_stringify (merge (content w') source))) (issued ClientGet w'))"
    by (simp add: saveUniqueJobsData_read_ok [OF n] client_set_fail [OF g])
  show "removeUniqueJobData i w' =
        ((Some e', omit (content w') (\<lambda>value. Some value = i)),
         issued (ClientSet (JSON_stringify (omit (content w') (\<lambda>value. Some value = i))))
           (issued ClientGet w'))"
    by (simp add: removeUniqueJobData_read_ok [OF n] client_set_fail [OF g])
qed (simp_all add: getUniqueJobData_read_fail saveUniqueJobsData_read_fail
       removeUniqueJobData_read_fail)

lemma array_index_order_42: "array_index ''order-42'' = None"
  by (simp add: array_index_def decimal_def digit_def)

lemma put_order_42: "put ''order-42'' i [(''a'', v)] = [(''a'', v), (''order-42'', i)]"
  by (simp add: put_def array_index_order_42)

theorem store_errors_surface_witness:
  "faults \<lparr>cell = None, faults = [Some (Error ''ECONNRESET'')], trace = [],
      queue = ()\<rparr>
     = Some (Error ''ECONNRESET'') # [] \<and>
   getUniqueJobData ''order-42''
     \<lparr>cell = None, faults = [Some (Error ''ECONNRESET'')], trace = [], queue = ()\<rparr>
     = (Inl (Error ''ECONNRESET'', JObject []),
        \<lparr>cell = None, faults = [], trace = [ClientGet], queue = ()\<rparr>) \<and>
   faults \<lparr>cell = Some (Text (JObject [(''a'', Num 3)])),
           faults = [None, Some (Error ''ECONNRESET'')], trace = [], queue = ()\<rparr>
     = None # Some (Error ''ECONNRESET'') # [] \<and>
   saveUniqueJobsData [(''order-42'', Num 1)]
     \<lparr>cell = Some (Text (JObject [(''a'', Num 3)])),
      faults = [None, Some (Error ''ECONNRESET'')], trace = [], queue = ()\<rparr>
     = ((Some (Error ''ECONNRESET''), JObject [(''a'', Num 3), (''order-42'', Num 1)]),
        \<lparr>cell = Some (Text (JObject [(''a'', Num 3)])), faults = [],
         trace = [ClientGet, ClientSet (Text (JObject [(''a'', Num 3), (''order-42'', Num 1)]))],
         queue = ()\<rparr>)"
  using store_errors_surface
    [of "\<lparr>cell = None, faults = [Some (Error ''ECONNRESET'')], trace = [],
        queue = ()\<rparr>"
        "Error ''ECONNRESET''" "[]" "''order-42''" "[(''order-42'', Num 1)]" "Some (Num 1)"
        "\<lparr>cell = Some (Text (JObject [(''a'', Num 3)])),
          faults = [None, Some (Error ''ECONNRESET'')], trace = [], queue = ()\<rparr>"
        "Error ''ECONNRESET''" "[]"]
  by (simp add: issued_def content_def merge_def JSON_stringify_def put_order_42)

section \<open>Submission\<close>

lemma isUniqueJob_None_iff:
  "isUniqueJob this = None \<longleftrightarrow>
     (case data this of
        None \<Rightarrow> True
      | Some d \<Rightarrow> map_of d ''unique'' = None \<or> map_of d ''unique'' = Some [])"
  by (auto simp: isUniqueJob_def split: option.splits)

text \<open>
  Claim C7. A job that carries no uniqueness key (its data is undefined, has no property
  \<^verbatim>\<open>unique\<close>, or has the empty string there) goes straight to the engine's own save:
  the outcome is the engine's, the log gains that one call and no redis command, and the
  registry key and the pending outcomes of redis commands are untouched.
\<close>

theorem plain_submission_bypasses_registry:
  assumes "isUniqueJob this = None"
  shows "\<exists>error this' q.
           previousSave kue this (queue w) = ((error, this'), q) \<and>
           save kue this w =
             (Done error (Some this'), w\<lparr>queue := q,
                 trace := trace w @ [PreviousSave this]\<rparr>)"
  using assms by (auto simp: save_def split: prod.splits)

theorem plain_submission_bypasses_registry_witness:
  "isUniqueJob \<lparr>jid = None, data = Some [(''to'', ''x'')],
      alreadyExist = False\<rparr> = None \<and>
   (\<exists>error this' q.
      previousSave memory_kue \<lparr>jid = None, data = Some [(''to'', ''x'')],
          alreadyExist = False\<rparr>
        (queue \<lparr>cell = None, faults = [], trace = [], queue = []\<rparr>) = ((error,
            this'), q) \<and>
      save memory_kue \<lparr>jid = None, data = Some [(''to'', ''x'')],
          alreadyExist = False\<rparr>
        \<lparr>cell = None, faults = [], trace = [], queue = []\<rparr>
        = (Done error (Some this'),
           \<lparr>cell = None, faults = [],
            trace = [PreviousSave \<lparr>jid = None, data = Some [(''to'', ''x'')],
                alreadyExist = False\<rparr>],
            queue = q\<rparr>))"
  using plain_submission_bypasses_registry
    [of "\<lparr>jid = None, data = Some [(''to'', ''x'')], alreadyExist = False\<rparr>" memory_kue
        "\<lparr>cell = None, faults = [], trace = [], queue = []\<rparr>"]
  by (simp add: isUniqueJob_def)

lemma unique_attaches_key:
  "data this = Some d \<Longrightarrow> key \<noteq> [] \<Longrightarrow> isUniqueJob (unique this
      key) = Some key"
  by (simp add: unique_def isUniqueJob_def update_conv')

text \<open>
  Claim C3 says that \<^verbatim>\<open>unique\<close> attaches the key to the data of every job, also of a
  job whose data is undefined, so that its submission takes the path of unique jobs. For
  a job whose data is an object and a key that is not empty this is \<open>unique_attaches_key\<close>.
  For a job whose data is undefined it does not hold: \<^verbatim>\<open>unique\<close> merges the key into a
  new object that is dropped, the job comes back unchanged, it carries no key, and its
  submission is a plain save that never reads the registry.
\<close>

theorem unique_on_undefined_data_drops_key:
  "unique (this\<lparr>data := None\<rparr>) key = this\<lparr>data := None\<rparr> \<and>
   isUniqueJob (unique (this\<lparr>data := None\<rparr>) key) = None \<and>
   trace (snd (save kue (unique (this\<lparr>data := None\<rparr>) key) w))
     = trace w @ [PreviousSave (this\<lparr>data := None\<rparr>)]"
  by (simp add: unique_def isUniqueJob_def save_def split: prod.splits)

section \<open>What the lookup finds\<close>

lemma put_empty: "key \<noteq> ''__proto__'' \<Longrightarrow> put key v [] = [(key, v)]"
  by (simp add: put_def split: option.splits)

lemma put_proto [simp]: "put ''__proto__'' v object = object"
  by (simp add: put_def)

lemma pick_proto: "pick value ''__proto__'' = []"
  by (simp add: pick_def split: json.splits)

lemma pick_own:
  "key \<noteq> ''__proto__'' \<Longrightarrow> map_of d key = Some i \<Longrightarrow> pick
      (JObject d) key = [(key, Own i)]"
  by (auto simp: pick_def has_in_def own_def get_property_def put_empty weak_map_of_SomeI
           dest: map_of_SomeD intro: rev_image_eqI)

lemma pick_absent:
  "key \<notin> set object_prototype \<Longrightarrow> map_of d key = None \<Longrightarrow> pick
      (JObject d) key = []"
  by (auto simp: pick_def has_in_def own_def inherited_def map_of_eq_None_iff)

lemma pick_inherited:
  "key \<in> set object_prototype \<Longrightarrow> key \<noteq> ''__proto__'' \<Longrightarrow>
      map_of d key = None \<Longrightarrow>
   pick (JObject d) key = [(key, Inherited key)]"
  by (simp add: pick_def has_in_def own_def inherited_def get_property_def put_empty)

lemma pick_shape: "pick value key = [] \<or> (\<exists>v. pick value key = [(key, v)])"
  by (cases "key = ''__proto__''") (auto simp: pick_def put_empty split: json.splits)

lemma existing_fetch:
  "tryGetExistingOrSaveJob kue this [(key, v)] w =
     (case Job_get kue (Some v) (queue w) of
        ((error, job), q) \<Rightarrow>
          ((error, map_option (\<lambda>j. j\<lparr>alreadyExist := True\<rparr>) job),
           w\<lparr>queue := q, trace := trace w @ [JobGet (Some v)]\<rparr>))"
  by (simp add: tryGetExistingOrSaveJob_def keys_def values'_def first_def Let_def)

lemma absent_create:
  "tryGetExistingOrSaveJob kue this [] w =
     (case previousSave kue this (queue w) of
        ((error, this'), q) \<Rightarrow>
          ((error, Some this'), w\<lparr>queue := q,
              trace := trace w @ [PreviousSave this]\<rparr>))"
  by (simp add: tryGetExistingOrSaveJob_def keys_def)

text \<open>
  Claim C10. On the path of an existing entry (the lookup of the key of the job finds an
  entry, with the value \<open>v\<close>; by \<open>pick_own\<close> this is so whenever the registry document has
  an own entry under a key other than \<^verbatim>\<open>__proto__\<close>), when \<^verbatim>\<open>Job.get\<close> calls back with
  no error and no job, the registration step reads \<^verbatim>\<open>job.data\<close> of the absent job: a
  TypeError is thrown after the lookup and the fetch, and \<^verbatim>\<open>done\<close> is never called.
\<close>

theorem fetch_without_job_throws:
  assumes "isUniqueJob this = Some key" and "next_fault w = None"
    and "pick (content w) key = [(key, v)]"
    and "Job_get kue (Some v) (queue w) = ((None, None), q)"
  shows "save kue this w =
           (Thrown TypeError,
            w\<lparr>faults := tl (faults w), trace := trace w @ [ClientGet, JobGet (Some v)],
              queue := q\<rparr>)"
  using assms
  by (simp add: save_def getUniqueJobData_ok existing_fetch saveUniqueJobsData'_def issued_def)

theorem fetch_without_job_throws_witness:
  "isUniqueJob \<lparr>jid = None, data = Some [(''unique'', ''order-42'')],
      alreadyExist = False\<rparr>
     = Some ''order-42'' \<and>
   next_fault \<lparr>cell = Some (Text (JObject [(''order-42'', Num 1)])), faults = [], trace = [],
               queue = ()\<rparr> = None \<and>
   pick (content \<lparr>cell = Some (Text (JObject [(''order-42'', Num 1)])), faults = [],
       trace = [],
                  queue = ()\<rparr>) ''order-42'' = [(''order-42'', Own (Num 1))] \<and>
   Job_get silent_kue (Some (Own (Num 1))) () = ((None, None), ()) \<and>
   save silent_kue \<lparr>jid = None, data = Some [(''unique'', ''order-42'')],
       alreadyExist = False\<rparr>
     \<lparr>cell = Some (Text (JObject [(''order-42'', Num 1)])), faults = [], trace = [],
         queue = ()\<rparr>
     = (Thrown TypeError,
        \<lparr>cell = Some (Text (JObject [(''order-42'', Num 1)])), faults = [],
         trace = [ClientGet, JobGet (Some (Own (Num 1)))], queue = ()\<rparr>)"
  using fetch_without_job_throws
    [of "\<lparr>jid = None, data = Some [(''unique'', ''order-42'')], alreadyExist = False\<rparr>"
        "''order-42''"
        "\<lparr>cell = Some (Text (JObject [(''order-42'', Num 1)])), faults = [], trace = [],
          queue = ()\<rparr>"
        "Own (Num 1)" silent_kue "()"]
  by (simp add: isUniqueJob_def next_fault_def content_def silent_kue_def pick_own)

section \<open>Submission of a job that carries a key\<close>

lemma no_faults_next: "no_faults w \<Longrightarrow> next_fault w = None"
  by (cases "faults w") (simp_all add: no_faults_def next_fault_def)

lemma no_faults_tl: "list_all (\<lambda>f. f = None) fs \<Longrightarrow> list_all (\<lambda>f. f
    = None) (tl fs)"
  by (cases fs) simp_all

lemma no_faults_issued: "no_faults w \<Longrightarrow> no_faults (issued ev w)"
  by (simp add: no_faults_def no_faults_tl)

lemma saveUniqueJobsData_ok:
  assumes "no_faults w"
  shows "saveUniqueJobsData source w =
           ((None, merge (content w) source),
            w\<lparr>cell := Some (Text (merge (content w) source)),
              faults := tl (tl (faults w)),
              trace := trace w @ [ClientGet, ClientSet (Text (merge (content w) source))]\<rparr>)"
proof -
  have "next_fault (issued ClientGet w) = None"
    using assms by (simp add: no_faults_next no_faults_issued)
  then show ?thesis
    using assms
    by (simp add: saveUniqueJobsData_read_ok no_faults_next client_set_ok JSON_stringify_def
          issued_def)
qed

lemma register_job:
  assumes "no_faults w" and "data j = Some dj"
  shows "saveUniqueJobsData' (Some j) w =
           (Done None (Some j),
            w\<lparr>cell := Some (Text (merge (content w) (registration j))),
              faults := tl (tl (faults w)),
              trace := trace w @
                [ClientGet, ClientSet (Text (merge (content w) (registration j)))]\<rparr>)"
  using assms
  by (simp add: saveUniqueJobsData'_def saveUniqueJobsData_ok registration_def Let_def)

lemma registration_flagged [simp]: "registration (j\<lparr>alreadyExist := b\<rparr>) =
    registration j"
  by (simp add: registration_def split: option.splits)

lemma content_update [simp]:
  "content (w\<lparr>faults := fs\<rparr>) = content w"
  "content (w\<lparr>trace := tr\<rparr>) = content w"
  "content (w\<lparr>queue := q\<rparr>) = content w"
  by (simp_all add: content_def)

lemma save_existing:
  assumes "isUniqueJob this = Some key" and "no_faults w"
    and "pick (content w) key = [(key, v)]"
    and "Job_get kue (Some v) (queue w) = ((None, Some j), q)" and "data j = Some dj"
  shows "save kue this w =
           (Done None (Some (j\<lparr>alreadyExist := True\<rparr>)),
            w\<lparr>cell := Some (Text (merge (content w) (registration j))),
              faults := tl (tl (tl (faults w))),
              trace := trace w @ [ClientGet, JobGet (Some v), ClientGet,
                                  ClientSet (Text (merge (content w) (registration j)))],
              queue := q\<rparr>)"
proof -
  let ?w1 = "issued ClientGet w"
  let ?w2 = "?w1\<lparr>queue := q, trace := trace ?w1 @ [JobGet (Some v)]\<rparr>"
  let ?j = "j\<lparr>alreadyExist := True\<rparr>"
  have l: "getUniqueJobData key w = (Inr [(key, v)], ?w1)"
    using assms by (simp add: getUniqueJobData_ok no_faults_next)
  have f: "tryGetExistingOrSaveJob kue this [(key, v)] ?w1 = ((None, Some ?j), ?w2)"
    using assms by (simp add: existing_fetch)
  have n: "no_faults ?w2" "data ?j = Some dj"
    using assms by (simp_all add: no_faults_def no_faults_tl)
  have c: "content ?w2 = content w"
    by simp
  have "save kue this w = saveUniqueJobsData' (Some ?j) ?w2"
    unfolding save_def by (simp only: assms(1) l f option.case prod.case sum.case)
  also have "\<dots> =
      (Done None (Some ?j),
       ?w2\<lparr>cell := Some (Text (merge (content ?w2) (registration ?j))),
           faults := tl (tl (faults ?w2)),
           trace := trace ?w2 @
             [ClientGet, ClientSet (Text (merge (content ?w2) (registration ?j)))]\<rparr>)"
    by (rule register_job [OF n])
  finally show ?thesis
    by (simp add: issued_def)
qed

lemma update_same: "map_of d key = Some i \<Longrightarrow> AList.update key i d = d"
  by (induction d) (auto split: if_splits)

lemma put_same: "map_of d key = Some i \<Longrightarrow> put key i d = d"
  by (auto simp: put_def update_same dest: map_of_SomeD intro: rev_image_eqI)

lemma merge_single:
  "key \<noteq> ''__proto__'' \<Longrightarrow> merge (JObject d) (put key i []) = JObject (put
      key i d)"
  by (simp add: merge_def put_empty)

text \<open>
  Claim C2, as the code has it. When the lookup of the key of the submitted job finds an
  entry (with the value \<open>v\<close>) and the engine fetches a job \<open>j\<close> for it (with data), the
  submission creates nothing: the engine is called once, to fetch \<open>v\<close>, and the job
  handed to \<^verbatim>\<open>done\<close> is \<open>j\<close> flagged \<^verbatim>\<open>alreadyExist\<close>. The registration step runs all
  the same: the registry is read a second time and written, with the data read and the
  key and identifier of \<open>j\<close> itself merged into it. When the registry document has the
  identifier \<open>i\<close> under the key looked up and \<open>j\<close> carries that key and \<open>i\<close>, what is
  written is the document as it was.
\<close>

theorem existing_entry_fetches_and_registers_again:
  assumes "isUniqueJob this = Some key" and "no_faults w"
    and "pick (content w) key = [(key, v)]"
    and "Job_get kue (Some v) (queue w) = ((None, Some j), q)" and "data j = Some dj"
  shows "save kue this w =
           (Done None (Some (j\<lparr>alreadyExist := True\<rparr>)),
            w\<lparr>cell := Some (Text (merge (content w) (registration j))),
              faults := tl (tl (tl (faults w))),
              trace := trace w @ [ClientGet, JobGet (Some v), ClientGet,
                                  ClientSet (Text (merge (content w) (registration j)))],
              queue := q\<rparr>) \<and>
         (\<forall>d i. content w = JObject d \<and> map_of d key = Some i \<and>
                 jid j = Some i \<and> map_of dj ''unique'' = Some key \<longrightarrow>
                 merge (content w) (registration j) = content w)"
proof (intro conjI allI impI)
  show "save kue this w =
           (Done None (Some (j\<lparr>alreadyExist := True\<rparr>)),
            w\<lparr>cell := Some (Text (merge (content w) (registration j))),
              faults := tl (tl (tl (faults w))),
              trace := trace w @ [ClientGet, JobGet (Some v), ClientGet,
                                  ClientSet (Text (merge (content w) (registration j)))],
              queue := q\<rparr>)"
    using assms by (rule save_existing)
next
  fix d i
  assume a: "content w = JObject d \<and> map_of d key = Some i \<and>
             jid j = Some i \<and> map_of dj ''unique'' = Some key"
  from assms(3) have k: "key \<noteq> ''__proto__''"
    by (auto simp: pick_proto)
  from a assms(5) have "registration j = put key i []"
    by (simp add: registration_def)
  with a k show "merge (content w) (registration j) = content w"
    by (simp add: merge_single put_same)
qed

lemma memory_kue_save:
  "previousSave memory_kue this q =
     ((None, this\<lparr>jid := Some (Num (int (length q) + 1))\<rparr>),
      q @ [this\<lparr>jid := Some (Num (int (length q) + 1))\<rparr>])"
  by (simp add: memory_kue_def Let_def)

lemma memory_kue_get:
  "Job_get memory_kue i q =
     (case filter (\<lambda>j. map_option Own (jid j) = i) q of
        [] \<Rightarrow> ((Some (Error ''job doesnt exist''), None), q)
      | j # _ \<Rightarrow> ((None, Some j), q))"
  by (simp add: memory_kue_def)

lemmas registry_evaluation =
  getUniqueJobData_def getUniqueJobsData_def removeUniqueJobData_def saveUniqueJobsData_def
  client_get_def client_set_def pick_def has_in_def own_def inherited_def object_prototype_def
  number_prototype_def boolean_prototype_def get_property_def put_def array_index_def
  decimal_def digit_def omit_def merge_def JSON_stringify_def Let_def

lemmas save_evaluation =
  save_def isUniqueJob_def tryGetExistingOrSaveJob_def keys_def values'_def first_def
  saveUniqueJobsData'_def memory_kue_save memory_kue_get

theorem existing_entry_fetches_and_registers_again_witness:
  "isUniqueJob \<lparr>jid = None, data = Some [(''unique'', ''order-42'')],
      alreadyExist = False\<rparr>
     = Some ''order-42'' \<and>
   no_faults
     \<lparr>cell = Some (Text (JObject [(''order-42'', Num 1)])), faults = [], trace = [],
      queue = [\<lparr>jid = Some (Num 1), data = Some [(''unique'', ''order-42'')],
          alreadyExist = False\<rparr>]\<rparr> \<and>
   pick (content
     \<lparr>cell = Some (Text (JObject [(''order-42'', Num 1)])), faults = [], trace = [],
      queue = [\<lparr>jid = Some (Num 1), data = Some [(''unique'', ''order-42'')],
          alreadyExist = False\<rparr>]\<rparr>) ''order-42'' = [(''order-42'',
          Own (Num 1))] \<and>
   Job_get memory_kue (Some (Own (Num 1)))
     [\<lparr>jid = Some (Num 1), data = Some [(''unique'', ''order-42'')],
         alreadyExist = False\<rparr>]
     = ((None, Some \<lparr>jid = Some (Num 1), data = Some [(''unique'', ''order-42'')],
         alreadyExist = False\<rparr>),
        [\<lparr>jid = Some (Num 1), data = Some [(''unique'', ''order-42'')],
            alreadyExist = False\<rparr>]) \<and>
   save memory_kue \<lparr>jid = None, data = Some [(''unique'', ''order-42'')],
       alreadyExist = False\<rparr>
     \<lparr>cell = Some (Text (JObject [(''order-42'', Num 1)])), faults = [], trace = [],
      queue = [\<lparr>jid = Some (Num 1), data = Some [(''unique'', ''order-42'')],
          alreadyExist = False\<rparr>]\<rparr>
     = (Done None (Some \<lparr>jid = Some (Num 1), data = Some [(''unique'', ''order-42'')],
         alreadyExist = True\<rparr>),
        \<lparr>cell = Some (Text (JObject [(''order-42'', Num 1)])), faults = [],
         trace = [ClientGet, JobGet (Some (Own (Num 1))), ClientGet,
                  ClientSet (Text (JObject [(''order-42'', Num 1)]))],
         queue = [\<lparr>jid = Some (Num 1), data = Some [(''unique'', ''order-42'')],
             alreadyExist = False\<rparr>]\<rparr>)"
  using existing_entry_fetches_and_registers_again
    [of "\<lparr>jid = None, data = Some [(''unique'', ''order-42'')], alreadyExist = False\<rparr>"
        "''order-42''"
        "\<lparr>cell = Some (Text (JObject [(''order-42'', Num 1)])), faults = [], trace = [],
      queue = [\<lparr>jid = Some (Num 1), data = Some [(''unique'', ''order-42'')],
          alreadyExist = False\<rparr>]\<rparr>"
        "Own (Num 1)" memory_kue
        "\<lparr>jid = Some (Num 1), data = Some [(''unique'', ''order-42'')],
            alreadyExist = False\<rparr>"
        "[\<lparr>jid = Some (Num 1), data = Some [(''unique'', ''order-42'')],
            alreadyExist = False\<rparr>]"
        "[(''unique'', ''order-42'')]"]
  by (simp add: isUniqueJob_def no_faults_def content_def memory_kue_get pick_own
        registration_def merge_def put_empty put_same)

text \<open>
  The second submission of the example of the specification: the registry holds
  \<^verbatim>\<open>{"order-42": 1}\<close> and the engine holds job 1. The log of the submission ends with a
  read and a write of the registry key.
\<close>

theorem existing_entry_writes_registry_counterexample:
  "trace (snd (save memory_kue
     \<lparr>jid = None, data = Some [(''unique'', ''order-42'')], alreadyExist = False\<rparr>
     \<lparr>cell = Some (Text (JObject [(''order-42'', Num 1)])), faults = [], trace = [],
      queue = [\<lparr>jid = Some (Num 1), data = Some [(''unique'', ''order-42'')],
          alreadyExist = False\<rparr>]\<rparr>))
   = [ClientGet, JobGet (Some (Own (Num 1))), ClientGet,
      ClientSet (Text (JObject [(''order-42'', Num 1)]))]"
  by (simp add: save_evaluation registry_evaluation)

section \<open>Keys and contents that the registry does not hold\<close>

text \<open>
  Claim C1 says that two submissions in a row under the same key yield the same job, the
  second time flagged. Under the key \<^verbatim>\<open>__proto__\<close> they do not: the lookup never finds
  that name and the registration step assigns it to no property, so both submissions
  create a job (1, then 2), neither is flagged, and the registry is written empty twice.
\<close>

theorem proto_key_submitted_twice_creates_two_jobs:
  "save memory_kue \<lparr>jid = None, data = Some [(''unique'', ''__proto__'')],
      alreadyExist = False\<rparr>
     \<lparr>cell = None, faults = [], trace = [], queue = []\<rparr>
     = (Done None (Some \<lparr>jid = Some (Num 1), data = Some [(''unique'', ''__proto__'')],
         alreadyExist = False\<rparr>),
        \<lparr>cell = Some (Text (JObject [])), faults = [],
      trace = [ClientGet, PreviousSave \<lparr>jid = None, data = Some [(''unique'',
          ''__proto__'')], alreadyExist = False\<rparr>,
               ClientGet, ClientSet (Text (JObject []))],
      queue = [\<lparr>jid = Some (Num 1), data = Some [(''unique'', ''__proto__'')],
          alreadyExist = False\<rparr>]\<rparr>) \<and>
   save memory_kue \<lparr>jid = None, data = Some [(''unique'', ''__proto__'')],
       alreadyExist = False\<rparr>
     \<lparr>cell = Some (Text (JObject [])), faults = [],
      trace = [ClientGet, PreviousSave \<lparr>jid = None, data = Some [(''unique'',
          ''__proto__'')], alreadyExist = False\<rparr>,
               ClientGet, ClientSet (Text (JObject []))],
      queue = [\<lparr>jid = Some (Num 1), data = Some [(''unique'', ''__proto__'')],
          alreadyExist = False\<rparr>]\<rparr>
     = (Done None (Some \<lparr>jid = Some (Num 2), data = Some [(''unique'', ''__proto__'')],
         alreadyExist = False\<rparr>),
        \<lparr>cell = Some (Text (JObject [])), faults = [],
      trace = [ClientGet, PreviousSave \<lparr>jid = None, data = Some [(''unique'',
          ''__proto__'')], alreadyExist = False\<rparr>,
               ClientGet, ClientSet (Text (JObject [])),
               ClientGet, PreviousSave \<lparr>jid = None, data = Some [(''unique'',
                   ''__proto__'')], alreadyExist = False\<rparr>,
               ClientGet, ClientSet (Text (JObject []))],
      queue = [\<lparr>jid = Some (Num 1), data = Some [(''unique'', ''__proto__'')],
          alreadyExist = False\<rparr>,
               \<lparr>jid = Some (Num 2), data = Some [(''unique'', ''__proto__'')],
                   alreadyExist = False\<rparr>]\<rparr>)"
  by (simp add: save_evaluation registry_evaluation)

text \<open>
  The same happens under an ordinary key when the registry key holds the JSON text
  \<^verbatim>\<open>7\<close>: the merge returns the number as it is, nothing is registered, and the second
  submission creates job 2.
\<close>

lemma scalar_registry_submitted_twice_creates_two_jobs:
  "fst (save memory_kue \<lparr>jid = None, data = Some [(''unique'', ''order-42'')],
      alreadyExist = False\<rparr>
     \<lparr>cell = Some (Text (JScalar (Number 7))), faults = [], trace = [], queue = []\<rparr>)
     = Done None (Some \<lparr>jid = Some (Num 1), data = Some [(''unique'', ''order-42'')],
         alreadyExist = False\<rparr>) \<and>
   fst (save memory_kue \<lparr>jid = None, data = Some [(''unique'', ''order-42'')],
       alreadyExist = False\<rparr>
     (snd (save memory_kue \<lparr>jid = None, data = Some [(''unique'', ''order-42'')],
         alreadyExist = False\<rparr>
       \<lparr>cell = Some (Text (JScalar (Number 7))), faults = [], trace = [],
           queue = []\<rparr>)))
     = Done None (Some \<lparr>jid = Some (Num 2), data = Some [(''unique'', ''order-42'')],
                         alreadyExist = False\<rparr>) \<and>
   cell (snd (save memory_kue \<lparr>jid = None, data = Some [(''unique'', ''order-42'')],
       alreadyExist = False\<rparr>
     (snd (save memory_kue \<lparr>jid = None, data = Some [(''unique'', ''order-42'')],
         alreadyExist = False\<rparr>
       \<lparr>cell = Some (Text (JScalar (Number 7))), faults = [], trace = [],
           queue = []\<rparr>))))
     = Some (Text (JScalar (Number 7)))"
  by (simp add: save_evaluation registry_evaluation)

text \<open>
  Claim C9 says that the merge of a key and an identifier sets the entry of that key in
  the document written and returned, for every key. Under the key \<^verbatim>\<open>__proto__\<close> it sets
  nothing: the object made by \<^verbatim>\<open>uniqueJobData[key] = job.id\<close> has no property, and a
  source that has an own property of that name (as \<^verbatim>\<open>JSON.parse\<close> makes one) is not
  assigned either; the registry is written and returned empty, and the registration step
  of a job with that key completes without error.
\<close>

theorem merge_under_proto_sets_nothing:
  "put ''__proto__'' (Num 1) [] = [] \<and>
   saveUniqueJobsData (put ''__proto__'' (Num 1) []) \<lparr>cell = None, faults = [], trace = [],
       queue = ()\<rparr>
     = ((None, JObject []),
        \<lparr>cell = Some (Text (JObject [])), faults = [],
         trace = [ClientGet, ClientSet (Text (JObject []))], queue = ()\<rparr>) \<and>
   saveUniqueJobsData [(''__proto__'', Num 1)] \<lparr>cell = None, faults = [], trace = [],
       queue = ()\<rparr>
     = ((None, JObject []),
        \<lparr>cell = Some (Text (JObject [])), faults = [],
         trace = [ClientGet, ClientSet (Text (JObject []))], queue = ()\<rparr>) \<and>
   saveUniqueJobsData' (Some \<lparr>jid = Some (Num 1), data = Some [(''unique'',
       ''__proto__'')], alreadyExist = False\<rparr>) \<lparr>cell = None, faults = [],
       trace = [], queue = ()\<rparr>
     = (Done None (Some \<lparr>jid = Some (Num 1), data = Some [(''unique'', ''__proto__'')],
         alreadyExist = False\<rparr>),
        \<lparr>cell = Some (Text (JObject [])), faults = [],
         trace = [ClientGet, ClientSet (Text (JObject []))], queue = ()\<rparr>)"
  by (simp add: saveUniqueJobsData'_def registry_evaluation)

text \<open>
  Under an ordinary key nothing is set either when the registry key holds the JSON text
  \<^verbatim>\<open>7\<close>: the number is written back and returned.
\<close>

lemma merge_into_scalar_sets_nothing:
  "saveUniqueJobsData (put ''order-42'' (Num 1) []) \<lparr>cell = Some (Text (JScalar (Number
      7))), faults = [], trace = [], queue = ()\<rparr>
     = ((None, JScalar (Number 7)),
        \<lparr>cell = Some (Text (JScalar (Number 7))), faults = [],
         trace = [ClientGet, ClientSet (Text (JScalar (Number 7)))], queue = ()\<rparr>)"
  by (simp add: registry_evaluation)

text \<open>
  Claim C6 says that the read yields an empty mapping whenever the registry key holds
  nothing that parses as a mapping, and that the lookup of any key then finds nothing.
  When the key holds the JSON text \<^verbatim>\<open>7\<close>, \<^verbatim>\<open>JSON.parse\<close> accepts it, the value is not
  null, and the read hands the number on, not an empty mapping. And on a registry key that
  does not exist, the lookup of \<^verbatim>\<open>constructor\<close> finds the member of that name which
  every object inherits.
\<close>

theorem read_hands_on_scalar_and_lookup_finds_inherited:
  "getUniqueJobsData \<lparr>cell = Some (Text (JScalar (Number 7))), faults = [], trace = [],
      queue = ()\<rparr>
     = ((None, JScalar (Number 7)),
        \<lparr>cell = Some (Text (JScalar (Number 7))), faults = [], trace = [ClientGet],
         queue = ()\<rparr>) \<and>
   JScalar (Number 7) \<noteq> JObject [] \<and>
   getUniqueJobData ''constructor'' \<lparr>cell = None, faults = [], trace = [], queue = ()\<rparr>
     = (Inr [(''constructor'', Inherited ''constructor'')],
        \<lparr>cell = None, faults = [], trace = [ClientGet], queue = ()\<rparr>)"
  by (simp add: registry_evaluation)

text \<open>
  Claim C5 says that after the removal of a job the lookup of its former key finds
  nothing. The cleanup does remove the entry; but when the key is \<^verbatim>\<open>constructor\<close> (the
  registry holds \<^verbatim>\<open>{"constructor": 1}\<close> and job 1 is removed), the lookup that follows
  finds the inherited member of that name in the emptied document.
\<close>

theorem lookup_after_cleanup_finds_inherited:
  "cell (env (remove silent_kue \<lparr>jid = Some (Num 1), data = Some [(''unique'',
      ''constructor'')], alreadyExist = False\<rparr>
     [removeJob, removeUniqueData, removeUniqueData]
     \<lparr>cell = Some (Text (JObject [(''constructor'', Num 1)])), faults = [], trace = [],
      queue = ()\<rparr>))
     = Some (Text (JObject [])) \<and>
   final_calls (trace (env (remove silent_kue \<lparr>jid = Some (Num 1),
       data = Some [(''unique'', ''constructor'')], alreadyExist = False\<rparr>
     [removeJob, removeUniqueData, removeUniqueData]
     \<lparr>cell = Some (Text (JObject [(''constructor'', Num 1)])), faults = [], trace = [],
      queue = ()\<rparr>))) = [None] \<and>
   fst (getUniqueJobData ''constructor'' (env (remove silent_kue \<lparr>jid = Some (Num 1),
       data = Some [(''unique'', ''constructor'')], alreadyExist = False\<rparr>
     [removeJob, removeUniqueData, removeUniqueData]
     \<lparr>cell = Some (Text (JObject [(''constructor'', Num 1)])), faults = [], trace = [],
      queue = ()\<rparr>)))
     = Inr [(''constructor'', Inherited ''constructor'')]"
  by (simp add: remove_def start_def deliver_def task_done_def finalize_def record_event_def
        silent_kue_def final_calls_def registry_evaluation)

section \<open>Removal\<close>

lemma reported_errors_append [simp]:
  "reported_errors (xs @ ys) = reported_errors xs @ reported_errors ys"
  by (simp add: reported_errors_def)

lemma final_calls_append [simp]:
  "final_calls (xs @ ys) = final_calls xs @ final_calls ys"
  by (simp add: final_calls_def)

lemma reported_errors_simps [simp]:
  "reported_errors [] = []"
  "reported_errors (TaskDone t err # evs) =
     (case err of None \<Rightarrow> [] | Some e \<Rightarrow> [e]) @ reported_errors evs"
  "reported_errors (Finalize r # evs) = reported_errors evs"
  "reported_errors (PreviousRemove j # evs) = reported_errors evs"
  "reported_errors (ClientGet # evs) = reported_errors evs"
  "reported_errors (ClientSet b # evs) = reported_errors evs"
  "reported_errors (PreviousSave j # evs) = reported_errors evs"
  "reported_errors (JobGet p # evs) = reported_errors evs"
  by (simp_all add: reported_errors_def split: option.splits)

lemma final_calls_simps [simp]:
  "final_calls [] = []"
  "final_calls (TaskDone t err # evs) = final_calls evs"
  "final_calls (Finalize r # evs) = r # final_calls evs"
  "final_calls (PreviousRemove j # evs) = final_calls evs"
  "final_calls (ClientGet # evs) = final_calls evs"
  "final_calls (ClientSet b # evs) = final_calls evs"
  "final_calls (PreviousSave j # evs) = final_calls evs"
  "final_calls (JobGet p # evs) = final_calls evs"
  by (simp_all add: final_calls_def)

lemma record_event_simps [simp]:
  "trace (env (record_event ev s)) = trace (env s) @ [ev]"
  "cell (env (record_event ev s)) = cell (env s)"
  "faults (env (record_event ev s)) = faults (env s)"
  "queue (env (record_event ev s)) = queue (env s)"
  "removeJob_state (record_event ev s) = removeJob_state s"
  "removeUniqueData_state (record_event ev s) = removeUniqueData_state s"
  "completed (record_event ev s) = completed s"
  "called (record_event ev s) = called s"
  by (simp_all add: record_event_def)

lemma finalize_called: "called s \<Longrightarrow> finalize r s = s"
  by (simp add: finalize_def)

lemma finalize_first:
  "\<not> called s \<Longrightarrow> finalize r s = record_event (Finalize r) (s\<lparr>called :=
      True\<rparr>)"
  by (simp add: finalize_def)

lemma task_done_called:
  "called s \<Longrightarrow>
   task_done t err s = record_event (TaskDone t err) (s\<lparr>completed := completed s -
       1\<rparr>)"
  by (simp add: task_done_def Let_def finalize_called)

lemma task_done_finalizes:
  "\<not> called s \<Longrightarrow> err \<noteq> None \<or> completed s - 1 = 0 \<Longrightarrow>
   task_done t err s =
     record_event (Finalize err)
       ((record_event (TaskDone t err) (s\<lparr>completed := completed s -
           1\<rparr>))\<lparr>called := True\<rparr>)"
  by (auto simp: task_done_def Let_def finalize_first)

lemma task_done_waits:
  "\<not> called s \<Longrightarrow> err = None \<Longrightarrow> completed s - 1 \<noteq> 0
      \<Longrightarrow>
   task_done t err s = record_event (TaskDone t err) (s\<lparr>completed := completed s -
       1\<rparr>)"
  by (simp add: task_done_def Let_def)

lemma task_done_keeps [simp]:
  "cell (env (task_done t err s)) = cell (env s)"
  "faults (env (task_done t err s)) = faults (env s)"
  "queue (env (task_done t err s)) = queue (env s)"
  "removeJob_state (task_done t err s) = removeJob_state s"
  "removeUniqueData_state (task_done t err s) = removeUniqueData_state s"
  by (simp_all add: task_done_def finalize_def Let_def)

lemma pending_task_done [simp]: "pending (task_done t err s) = pending s"
  by (simp add: pending_def)

lemma task_done_invariant:
  assumes "trace (env s) = tr0 @ evs" and "completed s = pending s + 1"
    and "called s \<longleftrightarrow> final_calls evs \<noteq> []"
    and "final_calls evs = (case reported_errors evs of e # _ \<Rightarrow> [Some e] | []
        \<Rightarrow> [])"
  shows "run_invariant tr0 (task_done t err s)"
proof (cases "called s")
  case True
  with assms(3,4) obtain e0 es where "reported_errors evs = e0 # es"
    by (cases "reported_errors evs") auto
  with assms True show ?thesis
    unfolding run_invariant_def
    by (intro exI [of _ "evs @ [TaskDone t err]"])
       (simp add: task_done_called pending_def split: option.splits)
next
  case False
  with assms(3,4) have n: "final_calls evs = []" "reported_errors evs = []"
    by (auto split: list.splits)
  show ?thesis
  proof (cases "err \<noteq> None \<or> completed s - 1 = 0")
    case True
    with n assms(1,2) False show ?thesis
      unfolding run_invariant_def
      by (intro exI [of _ "evs @ [TaskDone t err, Finalize err]"])
         (auto simp: task_done_finalizes pending_def split: option.splits if_splits)
  next
    case False
    with n assms(1,2) \<open>\<not> called s\<close> show ?thesis
      unfolding run_invariant_def
      by (intro exI [of _ "evs @ [TaskDone t err]"])
         (auto simp: task_done_waits pending_def split: option.splits if_splits)
  qed
qed

lemma client_set_trace: "trace (snd (client_set b w)) = trace w @ [ClientSet b]"
  by (simp add: client_set_def Let_def split: list.splits option.splits)

lemma invariant_before_report:
  assumes "run_invariant tr0 s" and "pending s \<noteq> 0"
  obtains evs where "trace (env s) = tr0 @ evs" and "completed s = pending s"
    and "called s \<longleftrightarrow> final_calls evs \<noteq> []"
    and "final_calls evs = (case reported_errors evs of e # _ \<Rightarrow> [Some e] | []
        \<Rightarrow> [])"
proof -
  from assms(1) obtain evs where e: "trace (env s) = tr0 @ evs" "completed s = pending s"
    "called s \<longleftrightarrow> final_calls evs \<noteq> []"
    "final_calls evs =
       (case reported_errors evs of e # _ \<Rightarrow> [Some e]
        | [] \<Rightarrow> if completed s = 0 then [None] else [])"
    unfolding run_invariant_def by blast
  with assms(2) have "final_calls evs = (case reported_errors evs of e # _ \<Rightarrow> [Some e]
      | [] \<Rightarrow> [])"
    by (simp split: list.splits)
  with e that show ?thesis
    by blast
qed

lemma invariant_silent_step:
  assumes "trace (env s) = tr0 @ evs" and "completed s = pending s"
    and "called s \<longleftrightarrow> final_calls evs \<noteq> []"
    and "final_calls evs = (case reported_errors evs of e # _ \<Rightarrow> [Some e] | []
        \<Rightarrow> [])"
    and "trace (env s') = trace (env s) @ [ev]" and "final_calls [ev] = []"
    and "reported_errors [ev] = []"
    and "completed s' = completed s" and "pending s' = pending s" and "called s' = called s"
    and "pending s \<noteq> 0"
  shows "run_invariant tr0 s'"
  unfolding run_invariant_def using assms
  by (intro exI [of _ "evs @ [ev]"]) (simp split: list.splits)

lemma deliver_invariant:
  assumes "run_invariant tr0 s"
  shows "run_invariant tr0 (deliver kue this t s)"
proof (cases t)
  case removeJob
  show ?thesis
  proof (cases "removeJob_state s = Running")
    case True
    obtain error q where r: "previousRemove kue this (queue (env s)) = (error, q)"
      by (cases "previousRemove kue this (queue (env s))")
    let ?s1 = "s\<lparr>env := (env s)\<lparr>queue := q,
        trace := trace (env s) @ [PreviousRemove this]\<rparr>,
                 removeJob_state := Finished\<rparr>"
    from True have "pending s \<noteq> 0"
      by (simp add: pending_def)
    with assms obtain evs where e: "trace (env s) = tr0 @ evs" "completed s = pending s"
      "called s \<longleftrightarrow> final_calls evs \<noteq> []"
      "final_calls evs = (case reported_errors evs of e # _ \<Rightarrow> [Some e] | []
          \<Rightarrow> [])"
      by (rule invariant_before_report)
    have "run_invariant tr0 (task_done removeJob error ?s1)"
    proof (rule task_done_invariant [where evs = "evs @ [PreviousRemove this]"])
      show "trace (env ?s1) = tr0 @ evs @ [PreviousRemove this]"
        using e(1) by simp
      show "completed ?s1 = pending ?s1 + 1"
        using e(2) True by (simp add: pending_def)
      show "called ?s1 \<longleftrightarrow> final_calls (evs @ [PreviousRemove this]) \<noteq> []"
        using e(3) by simp
      show "final_calls (evs @ [PreviousRemove this]) =
              (case reported_errors (evs @ [PreviousRemove this]) of
                 e # _ \<Rightarrow> [Some e] | [] \<Rightarrow> [])"
        using e(4) by simp
    qed
    with removeJob True r show ?thesis
      by (simp add: deliver_def)
  next
    case False
    with removeJob assms show ?thesis
      by (cases "removeJob_state s") (simp_all add: deliver_def)
  qed
next
  case removeUniqueData
  show ?thesis
  proof (cases "removeUniqueData_state s")
    case Running
    then have p: "pending s \<noteq> 0"
      by (simp add: pending_def)
    with assms obtain evs where e: "trace (env s) = tr0 @ evs" "completed s = pending s"
      "called s \<longleftrightarrow> final_calls evs \<noteq> []"
      "final_calls evs = (case reported_errors evs of e # _ \<Rightarrow> [Some e] | []
          \<Rightarrow> [])"
      by (rule invariant_before_report)
    obtain error uniqueJobsData where g:
      "getUniqueJobsData (env s) = ((error, uniqueJobsData), issued ClientGet (env s))"
      using getUniqueJobsData_world [of "env s"]
      by (cases "getUniqueJobsData (env s)") auto
    show ?thesis
    proof (cases error)
      case None
      let ?s' = "s\<lparr>env := issued ClientGet (env s),
                   removeUniqueData_state :=
                     Saving (omit uniqueJobsData (\<lambda>value. Some value = jid this))\<rparr>"
      have "run_invariant tr0 ?s'"
        by (rule invariant_silent_step [OF e, where ev = ClientGet])
           (use Running p in \<open>simp_all add: pending_def\<close>)
      with removeUniqueData Running g None show ?thesis
        by (simp add: deliver_def)
    next
      case (Some err)
      let ?s1 = "s\<lparr>env := issued ClientGet (env s),
          removeUniqueData_state := Finished\<rparr>"
      have "run_invariant tr0 (task_done removeUniqueData (Some err) ?s1)"
      proof (rule task_done_invariant [where evs = "evs @ [ClientGet]"])
        show "trace (env ?s1) = tr0 @ evs @ [ClientGet]"
          using e(1) by simp
        show "completed ?s1 = pending ?s1 + 1"
          using e(2) Running by (simp add: pending_def)
        show "called ?s1 \<longleftrightarrow> final_calls (evs @ [ClientGet]) \<noteq> []"
          using e(3) by simp
        show "final_calls (evs @ [ClientGet]) =
                (case reported_errors (evs @ [ClientGet]) of e # _ \<Rightarrow> [Some e] | []
                    \<Rightarrow> [])"
          using e(4) by simp
      qed
      with removeUniqueData Running g Some show ?thesis
        by (simp add: deliver_def)
    qed
  next
    case (Saving x)
    then have p: "pending s \<noteq> 0"
      by (simp add: pending_def)
    with assms obtain evs where e: "trace (env s) = tr0 @ evs" "completed s = pending s"
      "called s \<longleftrightarrow> final_calls evs \<noteq> []"
      "final_calls evs = (case reported_errors evs of e # _ \<Rightarrow> [Some e] | []
          \<Rightarrow> [])"
      by (rule invariant_before_report)
    obtain error w' where c: "client_set (JSON_stringify x) (env s) = (error, w')"
      by (cases "client_set (JSON_stringify x) (env s)")
    then have t: "trace w' = trace (env s) @ [ClientSet (JSON_stringify x)]"
      using client_set_trace [of "JSON_stringify x" "env s"] by simp
    let ?s1 = "s\<lparr>env := w', removeUniqueData_state := Finished\<rparr>"
    have "run_invariant tr0 (task_done removeUniqueData error ?s1)"
    proof (rule task_done_invariant [where evs = "evs @ [ClientSet (JSON_stringify x)]"])
      show "trace (env ?s1) = tr0 @ evs @ [ClientSet (JSON_stringify x)]"
        using e(1) t by simp
      show "completed ?s1 = pending ?s1 + 1"
        using e(2) Saving by (simp add: pending_def)
      show "called ?s1 \<longleftrightarrow> final_calls (evs @ [ClientSet (JSON_stringify x)])
          \<noteq> []"
        using e(3) by simp
      show "final_calls (evs @ [ClientSet (JSON_stringify x)]) =
              (case reported_errors (evs @ [ClientSet (JSON_stringify x)]) of
                 e # _ \<Rightarrow> [Some e] | [] \<Rightarrow> [])"
        using e(4) by simp
    qed
    with removeUniqueData Saving c show ?thesis
      by (simp add: deliver_def)
  next
    case Finished
    with removeUniqueData assms show ?thesis
      by (simp add: deliver_def)
  qed
qed

lemma start_invariant: "run_invariant (trace w) (start w)"
  unfolding run_invariant_def
  by (intro exI [of _ "[]"]) (simp add: start_def pending_def)

lemma fold_deliver_invariant:
  "run_invariant tr0 s \<Longrightarrow> run_invariant tr0 (fold (deliver kue this) schedule s)"
  by (induction schedule arbitrary: s) (simp_all add: deliver_invariant)

lemma remove_invariant: "run_invariant (trace w) (remove kue this schedule w)"
  by (simp add: remove_def fold_deliver_invariant start_invariant)

lemma removeJob_state_deliver:
  "removeJob_state s \<noteq> Running \<Longrightarrow> removeJob_state (deliver kue this t s) =
      removeJob_state s"
  by (cases t; cases "removeJob_state s"; cases "removeUniqueData_state s")
     (simp_all add: deliver_def split: prod.splits option.splits)

lemma removeJob_state_delivered:
  "removeJob_state s = Running \<Longrightarrow> removeJob_state (deliver kue this removeJob s) =
      Finished"
  by (simp add: deliver_def split: prod.splits)

lemma removeJob_state_range:
  "removeJob_state s \<in> {Running, Finished} \<Longrightarrow>
   removeJob_state (deliver kue this t s) \<in> {Running, Finished}"
  by (cases t; cases "removeJob_state s"; cases "removeUniqueData_state s")
     (simp_all add: deliver_def split: prod.splits option.splits)

lemma removeJob_finishes:
  "removeJob_state s \<in> {Running, Finished} \<Longrightarrow>
   removeJob \<in> set schedule \<or> removeJob_state s = Finished \<Longrightarrow>
   removeJob_state (fold (deliver kue this) schedule s) = Finished"
proof (induction schedule arbitrary: s)
  case Nil
  then show ?case by simp
next
  case (Cons t schedule)
  have r: "removeJob_state (deliver kue this t s) \<in> {Running, Finished}"
    using Cons.prems(1) by (rule removeJob_state_range)
  have "removeJob \<in> set schedule \<or> removeJob_state (deliver kue this t s) = Finished"
  proof (cases "removeJob_state s = Finished")
    case True
    then show ?thesis by (simp add: removeJob_state_deliver)
  next
    case False
    with Cons.prems have "removeJob_state s = Running" "t = removeJob \<or> removeJob \<in> set
        schedule"
      by auto
    then show ?thesis
      by (auto simp: removeJob_state_delivered)
  qed
  with Cons.IH [OF r] show ?case
    by simp
qed

lemma stage_deliver:
  "stage (removeUniqueData_state (deliver kue this t s)) \<ge>
     min 2 (stage (removeUniqueData_state s) + (if t = removeUniqueData then 1 else 0))"
  by (cases t; cases "removeJob_state s"; cases "removeUniqueData_state s")
     (simp_all add: deliver_def stage_def split: prod.splits option.splits)

lemma stage_fold:
  "stage (removeUniqueData_state (fold (deliver kue this) schedule s)) \<ge>
     min 2 (stage (removeUniqueData_state s) + count_list schedule removeUniqueData)"
proof (induction schedule arbitrary: s)
  case Nil
  then show ?case by simp
next
  case (Cons t schedule)
  have "min 2 (stage (removeUniqueData_state s) + count_list (t # schedule) removeUniqueData)
          \<le> min 2 (stage (removeUniqueData_state (deliver kue this t s))
                   + count_list schedule removeUniqueData)"
    using stage_deliver [of s t kue this] by auto
  also have "\<dots> \<le> stage (removeUniqueData_state (fold (deliver kue this) (t # schedule)
      s))"
    using Cons.IH [of "deliver kue this t s"] by simp
  finally show ?case .
qed

lemma stage_Finished: "stage p \<ge> 2 \<Longrightarrow> p = Finished"
  by (cases p) (simp_all add: stage_def)

lemma removeUniqueData_finishes:
  "2 \<le> count_list schedule removeUniqueData \<Longrightarrow>
   removeUniqueData_state (remove kue this schedule w) = Finished"
  using stage_fold [of "start w" schedule kue this]
  by (intro stage_Finished) (simp add: remove_def)

lemma removeJob_finishes_run:
  "removeJob \<in> set schedule \<Longrightarrow> removeJob_state (remove kue this schedule w) =
      Finished"
  by (simp add: remove_def removeJob_finishes start_def)

lemma reports_of_append [simp]:
  "reports_of t (xs @ ys) = reports_of t xs @ reports_of t ys"
  by (simp add: reports_of_def)

lemma reports_of_simps [simp]:
  "reports_of t [] = []"
  "reports_of t (TaskDone t' err # evs) = (if t' = t then [err] else []) @ reports_of t evs"
  "reports_of t (Finalize r # evs) = reports_of t evs"
  "reports_of t (PreviousRemove j # evs) = reports_of t evs"
  "reports_of t (ClientGet # evs) = reports_of t evs"
  "reports_of t (ClientSet b # evs) = reports_of t evs"
  "reports_of t (PreviousSave j # evs) = reports_of t evs"
  "reports_of t (JobGet p # evs) = reports_of t evs"
  by (simp_all add: reports_of_def)

lemma task_done_trace:
  "trace (env (task_done t err s)) = trace (env s) @ [TaskDone t err] \<or>
   (\<exists>r. trace (env (task_done t err s)) = trace (env s) @ [TaskDone t err, Finalize r])"
  by (simp add: task_done_def finalize_def Let_def)

lemma task_done_reports:
  assumes "trace (env s) = tr0 @ evs"
  obtains evs' where "trace (env (task_done t err s)) = tr0 @ evs'"
    and "reports_of t evs' = reports_of t evs @ [err]"
    and "\<And>t'. t' \<noteq> t \<Longrightarrow> reports_of t' evs' = reports_of t' evs"
proof -
  from task_done_trace [of t err s]
  consider "trace (env (task_done t err s)) = tr0 @ (evs @ [TaskDone t err])"
    | r where "trace (env (task_done t err s)) = tr0 @ (evs @ [TaskDone t err, Finalize r])"
    using assms by auto
  then show ?thesis
  proof cases
    case 1
    show ?thesis
      by (rule that [OF 1]) simp_all
  next
    case 2
    show ?thesis
      by (rule that [OF 2]) simp_all
  qed
qed

lemma client_set_depends:
  assumes "faults w1 = faults w2"
  shows "fst (client_set b w1) = fst (client_set b w2)"
    and "faults (snd (client_set b w1)) = faults (snd (client_set b w2))"
    and "cell w1 = cell w2 \<Longrightarrow> cell (snd (client_set b w1)) = cell (snd (client_set
        b w2))"
  using assms by (simp_all add: client_set_def Let_def split: list.splits option.splits)

lemma client_set_queue: "queue (snd (client_set b w)) = queue w"
  by (simp add: client_set_def Let_def split: list.splits option.splits)

lemma next_fault_depends: "faults w1 = faults w2 \<Longrightarrow> next_fault w1 = next_fault w2"
  by (simp add: next_fault_def)

lemma content_depends: "cell w1 = cell w2 \<Longrightarrow> content w1 = content w2"
  by (simp add: content_def)

lemma start_report_invariant: "report_invariant kue this w (start w)"
  unfolding report_invariant_def
  by (intro exI [of _ "[]"]) (simp add: start_def)

lemma deliver_report_invariant:
  assumes "report_invariant kue this w s"
  shows "report_invariant kue this w (deliver kue this t s)"
proof -
  from assms obtain evs where tr: "trace (env s) = trace w @ evs"
    and j: "case removeJob_state s of
              Running \<Rightarrow> queue (env s) = queue w \<and> reports_of removeJob evs = []
            | Saving x \<Rightarrow> False
            | Finished \<Rightarrow>
                queue (env s) = snd (previousRemove kue this (queue w)) \<and>
                reports_of removeJob evs = [fst (previousRemove kue this (queue w))]"
    and u: "case removeUniqueData_state s of
              Running \<Rightarrow>
                cell (env s) = cell w \<and> faults (env s) = faults w \<and>
                reports_of removeUniqueData evs = []
            | Saving x \<Rightarrow>
                cell (env s) = cell w \<and> faults (env s) = tl (faults w) \<and> next_fault w =
                    None \<and>
                x = omit (content w) (\<lambda>value. Some value = jid this) \<and>
                reports_of removeUniqueData evs = []
            | Finished \<Rightarrow>
                cell (env s) = cell (snd (removeUniqueJobData (jid this) w)) \<and>
                faults (env s) = faults (snd (removeUniqueJobData (jid this) w)) \<and>
                reports_of removeUniqueData evs = [fst (fst (removeUniqueJobData (jid this) w))]"
    unfolding report_invariant_def by blast
  show ?thesis
  proof (cases t)
    case removeJob
    show ?thesis
    proof (cases "removeJob_state s")
      case Running
      obtain error q where r: "previousRemove kue this (queue w) = (error, q)"
        by (cases "previousRemove kue this (queue w)")
      let ?s1 = "s\<lparr>env := (env s)\<lparr>queue := q,
          trace := trace (env s) @ [PreviousRemove this]\<rparr>,
                   removeJob_state := Finished\<rparr>"
      from j Running have q: "queue (env s) = queue w" and n: "reports_of removeJob evs = []"
        by simp_all
      have d: "deliver kue this t s = task_done removeJob error ?s1"
        using removeJob Running r q by (simp add: deliver_def)
      have "trace (env ?s1) = trace w @ (evs @ [PreviousRemove this])"
        using tr by simp
      then obtain evs' where e: "trace (env (task_done removeJob error ?s1)) = trace w @ evs'"
        "reports_of removeJob evs' = reports_of removeJob (evs @ [PreviousRemove this]) @ [error]"
        "\<And>t'. t' \<noteq> removeJob \<Longrightarrow>
           reports_of t' evs' = reports_of t' (evs @ [PreviousRemove this])"
        by (rule task_done_reports [where t = removeJob and err = error]) (rule that)
      from e(3) [of removeUniqueData]
      have e3: "reports_of removeUniqueData evs' = reports_of removeUniqueData evs"
        by simp
      show ?thesis
        unfolding report_invariant_def d
        using e(1,2) e3 n r u
        by (intro exI [of _ evs']) (simp split: progress.splits)
    next
      case (Saving x)
      with j show ?thesis by simp
    next
      case Finished
      with removeJob assms show ?thesis
        by (simp add: deliver_def)
    qed
  next
    case removeUniqueData
    show ?thesis
    proof (cases "removeUniqueData_state s")
      case Running
      with u have c: "cell (env s) = cell w" and f: "faults (env s) = faults w"
        and n: "reports_of removeUniqueData evs = []"
        by simp_all
      show ?thesis
      proof (cases "next_fault w")
        case None
        then have "next_fault (env s) = None"
          using f by (simp add: next_fault_def)
        then have d: "deliver kue this t s =
            s\<lparr>env := issued ClientGet (env s),
              removeUniqueData_state :=
                Saving (omit (content w) (\<lambda>value. Some value = jid this))\<rparr>"
          using removeUniqueData Running content_depends [OF c]
          by (simp add: deliver_def getUniqueJobsData_ok)
        show ?thesis
          unfolding report_invariant_def d
          using tr j c f n None
          by (intro exI [of _ "evs @ [ClientGet]"]) (simp split: progress.splits)
      next
        case (Some e)
        then obtain fs where fw: "faults w = Some e # fs"
          using next_fault_cases [of w] by (auto simp: next_fault_def)
        let ?s1 = "s\<lparr>env := issued ClientGet (env s),
            removeUniqueData_state := Finished\<rparr>"
        have d: "deliver kue this t s = task_done removeUniqueData (Some e) ?s1"
          using removeUniqueData Running fw f
          by (simp add: deliver_def getUniqueJobsData_fail)
        have "trace (env ?s1) = trace w @ (evs @ [ClientGet])"
          using tr by simp
        then obtain evs' where e:
          "trace (env (task_done removeUniqueData (Some e) ?s1)) = trace w @ evs'"
          "reports_of removeUniqueData evs' =
             reports_of removeUniqueData (evs @ [ClientGet]) @ [Some e]"
          "\<And>t'. t' \<noteq> removeUniqueData \<Longrightarrow> reports_of t' evs' =
              reports_of t' (evs @ [ClientGet])"
          by (rule task_done_reports [where t = removeUniqueData and err = "Some e"]) (rule that)
        from e(3) [of removeJob] have e3: "reports_of removeJob evs' = reports_of removeJob evs"
          by simp
        show ?thesis
          unfolding report_invariant_def d
          using e(1,2) e3 n j c f fw
          by (intro exI [of _ evs'])
             (simp add: removeUniqueJobData_read_fail [OF fw] split: progress.splits)
      qed
    next
      case (Saving x)
      with u have c: "cell (env s) = cell w" and f: "faults (env s) = tl (faults w)"
        and nf: "next_fault w = None"
        and x: "x = omit (content w) (\<lambda>value. Some value = jid this)"
        and n: "reports_of removeUniqueData evs = []"
        by simp_all
      let ?b = "JSON_stringify x"
      obtain error w' where cs: "client_set ?b (env s) = (error, w')"
        by (cases "client_set ?b (env s)")
      obtain error2 w2 where cs2: "client_set ?b (issued ClientGet w) = (error2, w2)"
        by (cases "client_set ?b (issued ClientGet w)")
      have same: "error = error2" "faults w' = faults w2" "cell w' = cell w2"
        using client_set_depends [of "env s" "issued ClientGet w" ?b] cs cs2 c f
        by simp_all
      have q: "queue w' = queue (env s)"
        using client_set_queue [of ?b "env s"] cs by simp
      have t: "trace w' = trace (env s) @ [ClientSet ?b]"
        using client_set_trace [of ?b "env s"] cs by simp
      have r: "removeUniqueJobData (jid this) w = ((error2, x), w2)"
        using cs2 by (simp add: removeUniqueJobData_read_ok [OF nf] x)
      let ?s1 = "s\<lparr>env := w', removeUniqueData_state := Finished\<rparr>"
      have d: "deliver kue this t s = task_done removeUniqueData error ?s1"
        using removeUniqueData Saving cs by (simp add: deliver_def)
      have "trace (env ?s1) = trace w @ (evs @ [ClientSet ?b])"
        using tr t by simp
      then obtain evs' where e:
        "trace (env (task_done removeUniqueData error ?s1)) = trace w @ evs'"
        "reports_of removeUniqueData evs' =
           reports_of removeUniqueData (evs @ [ClientSet ?b]) @ [error]"
        "\<And>t'. t' \<noteq> removeUniqueData \<Longrightarrow> reports_of t' evs' = reports_of
            t' (evs @ [ClientSet ?b])"
        by (rule task_done_reports [where t = removeUniqueData and err = error]) (rule that)
      from e(3) [of removeJob] have e3: "reports_of removeJob evs' = reports_of removeJob evs"
        by simp
      show ?thesis
        unfolding report_invariant_def d
        using e(1,2) e3 n j same q r
        by (intro exI [of _ evs']) (simp split: progress.splits)
    next
      case Finished
      with removeUniqueData assms show ?thesis
        by (simp add: deliver_def)
    qed
  qed
qed

lemma fold_deliver_report_invariant:
  "report_invariant kue this w s \<Longrightarrow>
   report_invariant kue this w (fold (deliver kue this) schedule s)"
  by (induction schedule arbitrary: s) (simp_all add: deliver_report_invariant)

lemma remove_report_invariant: "report_invariant kue this w (remove kue this schedule w)"
  by (simp add: remove_def fold_deliver_report_invariant start_report_invariant)

lemma reported_errors_are_reports:
  "e \<in> set (reported_errors evs) \<longleftrightarrow>
     Some e \<in> set (reports_of removeJob evs) \<or> Some e \<in> set (reports_of
         removeUniqueData evs)"
proof (induction evs)
  case Nil
  then show ?case by simp
next
  case (Cons ev evs)
  show ?case
  proof (cases ev)
    case (TaskDone t err)
    with Cons show ?thesis
      by (cases t; cases err) auto
  qed (use Cons in simp_all)
qed

text \<open>
  Claim C4, as the code has it. Take any run of \<^verbatim>\<open>remove\<close>, under any order of
  completions, up to any moment (a schedule and each of its prefixes are runs), and the
  events \<open>evs\<close> it has added to the trace. A task has reported to \<^verbatim>\<open>async.parallel\<close>
  exactly when it has finished, once, and what it has reported is what its operation
  returned: the error of the engine's removal for \<^verbatim>\<open>removeJob\<close>, the error of
  \<^verbatim>\<open>Job.removeUniqueJobData\<close> for \<^verbatim>\<open>removeUniqueData\<close>; the queue and the registry are then
  as the operation leaves them. The final callback has been called at most once. If a task
  has reported an error, it has been called with the first error reported, whether or not
  the other task has finished; a later error is not passed on. So whenever an operation
  that has finished has failed, the callback has received an error, and that error is the
  one of the two operations' errors; and when both have finished without an error, the
  callback has been called without one. If no task has reported an error, it has been
  called exactly when both tasks have finished. Every schedule that completes the removal
  of the job once and the two operations of the cleanup finishes both tasks, so the
  callback is called.
\<close>

theorem remove_reports_first_error:
  "let s = remove kue this schedule w;
       job_error = fst (previousRemove kue this (queue w));
       cleanup_error = fst (fst (removeUniqueJobData (jid this) w));
       job_done = (removeJob_state s = Finished);
       cleanup_done = (removeUniqueData_state s = Finished)
   in \<exists>evs. trace (env s) = trace w @ evs \<and>
        reports_of removeJob evs = (if job_done then [job_error] else []) \<and>
        reports_of removeUniqueData evs = (if cleanup_done then [cleanup_error] else []) \<and>
        (job_done \<longrightarrow> queue (env s) = snd (previousRemove kue this (queue w))) \<and>
        (cleanup_done \<longrightarrow> cell (env s) = cell (snd (removeUniqueJobData (jid this)
            w))) \<and>
        final_calls evs =
          (case reported_errors evs of
             e # _ \<Rightarrow> [Some e]
           | [] \<Rightarrow> if job_done \<and> cleanup_done then [None] else []) \<and>
        (job_done \<and> job_error \<noteq> None \<or> cleanup_done \<and> cleanup_error \<noteq>
            None \<longrightarrow>
           (\<exists>e. final_calls evs = [Some e] \<and> (job_error = Some e \<or> cleanup_error
               = Some e))) \<and>
        (job_done \<and> cleanup_done \<and> job_error = None \<and> cleanup_error = None
            \<longrightarrow>
           final_calls evs = [None]) \<and>
        (removeJob \<in> set schedule \<and> 2 \<le> count_list schedule removeUniqueData
            \<longrightarrow>
           job_done \<and> cleanup_done)"
proof -
  let ?s = "remove kue this schedule w"
  let ?je = "fst (previousRemove kue this (queue w))"
  let ?ue = "fst (fst (removeUniqueJobData (jid this) w))"
  let ?jd = "removeJob_state ?s = Finished"
  let ?ud = "removeUniqueData_state ?s = Finished"
  from remove_invariant [of w kue this schedule]
  obtain evs where e: "trace (env ?s) = trace w @ evs" "completed ?s = pending ?s"
    "final_calls evs =
       (case reported_errors evs of e # _ \<Rightarrow> [Some e]
        | [] \<Rightarrow> if completed ?s = 0 then [None] else [])"
    unfolding run_invariant_def by blast
  from remove_report_invariant [of kue this w schedule]
  obtain evs' where r: "trace (env ?s) = trace w @ evs'"
    and j: "case removeJob_state ?s of
              Running \<Rightarrow> queue (env ?s) = queue w \<and> reports_of removeJob evs' = []
            | Saving x \<Rightarrow> False
            | Finished \<Rightarrow>
                queue (env ?s) = snd (previousRemove kue this (queue w)) \<and>
                reports_of removeJob evs' = [?je]"
    and u: "case removeUniqueData_state ?s of
              Running \<Rightarrow>
                cell (env ?s) = cell w \<and> faults (env ?s) = faults w \<and>
                reports_of removeUniqueData evs' = []
            | Saving x \<Rightarrow>
                cell (env ?s) = cell w \<and> faults (env ?s) = tl (faults w) \<and>
                next_fault w = None \<and>
                x = omit (content w) (\<lambda>value. Some value = jid this) \<and>
                reports_of removeUniqueData evs' = []
            | Finished \<Rightarrow>
                cell (env ?s) = cell (snd (removeUniqueJobData (jid this) w)) \<and>
                faults (env ?s) = faults (snd (removeUniqueJobData (jid this) w)) \<and>
                reports_of removeUniqueData evs' = [?ue]"
    unfolding report_invariant_def by blast
  from e(1) r have same: "evs' = evs"
    by simp
  have rj: "reports_of removeJob evs = (if ?jd then [?je] else [])"
    using j unfolding same by (cases "removeJob_state ?s") simp_all
  have ru: "reports_of removeUniqueData evs = (if ?ud then [?ue] else [])"
    using u unfolding same by (cases "removeUniqueData_state ?s") simp_all
  have qj: "?jd \<longrightarrow> queue (env ?s) = snd (previousRemove kue this (queue w))"
    using j by (cases "removeJob_state ?s") simp_all
  have cu: "?ud \<longrightarrow> cell (env ?s) = cell (snd (removeUniqueJobData (jid this) w))"
    using u by (cases "removeUniqueData_state ?s") simp_all
  have c: "completed ?s = 0 \<longleftrightarrow> ?jd \<and> ?ud"
    by (simp add: e(2) pending_def)
  have f: "final_calls evs =
       (case reported_errors evs of e # _ \<Rightarrow> [Some e]
        | [] \<Rightarrow> if ?jd \<and> ?ud then [None] else [])"
    using e(3) unfolding c .
  have m: "x \<in> set (reported_errors evs) \<longleftrightarrow> ?jd \<and> ?je = Some x \<or>
      ?ud \<and> ?ue = Some x"
    for x
    unfolding reported_errors_are_reports rj ru by auto
  have err: "?jd \<and> ?je \<noteq> None \<or> ?ud \<and> ?ue \<noteq> None \<longrightarrow>
      (\<exists>x. final_calls evs = [Some x] \<and> (?je = Some x \<or> ?ue = Some x))"
  proof
    assume "?jd \<and> ?je \<noteq> None \<or> ?ud \<and> ?ue \<noteq> None"
    then obtain y where "?jd \<and> ?je = Some y \<or> ?ud \<and> ?ue = Some y"
      by auto
    then have "y \<in> set (reported_errors evs)"
      unfolding m .
    then obtain x xs where x: "reported_errors evs = x # xs"
      by (cases "reported_errors evs") auto
    then have "x \<in> set (reported_errors evs)"
      by simp
    then have "?je = Some x \<or> ?ue = Some x"
      unfolding m by blast
    moreover have "final_calls evs = [Some x]"
      using f x by simp
    ultimately show "\<exists>x. final_calls evs = [Some x] \<and> (?je = Some x \<or> ?ue = Some
        x)"
      by blast
  qed
  have ok: "?jd \<and> ?ud \<and> ?je = None \<and> ?ue = None \<longrightarrow> final_calls evs =
      [None]"
  proof
    assume a: "?jd \<and> ?ud \<and> ?je = None \<and> ?ue = None"
    have "reported_errors evs = []"
    proof (cases "reported_errors evs")
      case (Cons x xs)
      then have "x \<in> set (reported_errors evs)"
        by simp
      with a show ?thesis
        unfolding m by simp
    qed
    with a f show "final_calls evs = [None]"
      by simp
  qed
  have p: "removeJob \<in> set schedule \<and> 2 \<le> count_list schedule removeUniqueData
      \<longrightarrow>
           ?jd \<and> ?ud"
    by (simp add: removeUniqueData_finishes removeJob_finishes_run)
  show ?thesis
    unfolding Let_def
    by (intro exI [of _ evs] conjI) (rule e(1) rj ru qj cu f err ok p)+
qed

text \<open>
  The engine's removal fails, the cleanup of the registry succeeds, and the cleanup's
  read completes before the engine's removal: both tasks finish, the callback is called
  once, with the engine's error, and the registry has lost the entry of the job.
\<close>

theorem remove_reports_first_error_witness:
  "removeJob \<in> set [removeUniqueData, removeJob, removeUniqueData] \<and>
   2 \<le> count_list [removeUniqueData, removeJob, removeUniqueData] removeUniqueData \<and>
   fst (previousRemove failing_kue \<lparr>jid = Some (Num 1), data = None,
       alreadyExist = False\<rparr> ()) = Some (Error ''remove failed'') \<and>
   fst (fst (removeUniqueJobData (Some (Num 1)) 
        \<lparr>cell = Some (Text (JObject [(''order-42'', Num 1)])), faults = [], trace = [],
         queue = ()\<rparr>)) = None \<and>
   removeJob_state (remove failing_kue \<lparr>jid = Some (Num 1), data = None,
       alreadyExist = False\<rparr> [removeUniqueData, removeJob, removeUniqueData] 
        \<lparr>cell = Some (Text (JObject [(''order-42'', Num 1)])), faults = [], trace = [],
         queue = ()\<rparr>) = Finished \<and>
   removeUniqueData_state (remove failing_kue \<lparr>jid = Some (Num 1), data = None,
       alreadyExist = False\<rparr> [removeUniqueData, removeJob, removeUniqueData] 
        \<lparr>cell = Some (Text (JObject [(''order-42'', Num 1)])), faults = [], trace = [],
         queue = ()\<rparr>) = Finished \<and>
   final_calls (trace (env (remove failing_kue \<lparr>jid = Some (Num 1), data = None,
       alreadyExist = False\<rparr> [removeUniqueData, removeJob, removeUniqueData] 
        \<lparr>cell = Some (Text (JObject [(''order-42'', Num 1)])), faults = [], trace = [],
         queue = ()\<rparr>))) =
     [Some (Error ''remove failed'')] \<and>
   cell (env (remove failing_kue \<lparr>jid = Some (Num 1), data = None,
       alreadyExist = False\<rparr> [removeUniqueData, removeJob, removeUniqueData] 
        \<lparr>cell = Some (Text (JObject [(''order-42'', Num 1)])), faults = [], trace = [],
         queue = ()\<rparr>)) = Some (Text (JObject []))"
proof -
  have a: "removeJob \<in> set [removeUniqueData, removeJob,
      removeUniqueData]" "2 \<le> count_list [removeUniqueData, removeJob,
      removeUniqueData] removeUniqueData"
    by simp_all
  have b: "fst (previousRemove failing_kue \<lparr>jid = Some (Num 1), data = None,
      alreadyExist = False\<rparr> ()) = Some (Error ''remove failed'')"
    by (simp add: failing_kue_def)
  have c: "removeUniqueJobData (Some (Num 1)) 
        \<lparr>cell = Some (Text (JObject [(''order-42'', Num 1)])), faults = [], trace = [],
         queue = ()\<rparr> =
      ((None, JObject []),
       \<lparr>cell = Some (Text (JObject [])), faults = [],
          trace = [ClientGet, ClientSet (Text (JObject []))], queue = ()\<rparr>)"
    by (simp add: registry_evaluation)
  from remove_reports_first_error [of failing_kue "\<lparr>jid = Some (Num 1), data = None,
      alreadyExist = False\<rparr>" "[removeUniqueData, removeJob,
      removeUniqueData]" "\<lparr>cell = Some (Text (JObject [(''order-42'', Num 1)])),
      faults = [], trace = [],
         queue = ()\<rparr>"]
  obtain evs where e: "trace (env (remove failing_kue \<lparr>jid = Some (Num 1), data = None,
      alreadyExist = False\<rparr> [removeUniqueData, removeJob, removeUniqueData] 
        \<lparr>cell = Some (Text (JObject [(''order-42'', Num 1)])), faults = [], trace = [],
         queue = ()\<rparr>)) = evs"
    and d: "removeJob_state (remove failing_kue \<lparr>jid = Some (Num 1), data = None,
        alreadyExist = False\<rparr> [removeUniqueData, removeJob, removeUniqueData] 
        \<lparr>cell = Some (Text (JObject [(''order-42'', Num 1)])), faults = [], trace = [],
         queue = ()\<rparr>) = Finished"
      "removeUniqueData_state (remove failing_kue \<lparr>jid = Some (Num 1), data = None,
          alreadyExist = False\<rparr> [removeUniqueData, removeJob, removeUniqueData] 
        \<lparr>cell = Some (Text (JObject [(''order-42'', Num 1)])), faults = [], trace = [],
         queue = ()\<rparr>) = Finished"
    and f: "final_calls evs = [Some (Error ''remove failed'')]"
    and g: "cell (env (remove failing_kue \<lparr>jid = Some (Num 1), data = None,
        alreadyExist = False\<rparr> [removeUniqueData, removeJob, removeUniqueData] 
        \<lparr>cell = Some (Text (JObject [(''order-42'', Num 1)])), faults = [], trace = [],
         queue = ()\<rparr>)) = Some (Text (JObject []))"
    using a by (auto simp: Let_def b c)
  from a b c d f g show ?thesis
    unfolding e by simp
qed

text \<open>
  The engine's removal fails and completes first. The callback is called with its error
  at once, while the cleanup of the registry has not read the key yet; the read and the
  write of the registry follow the call.
\<close>

theorem remove_calls_back_before_cleanup_counterexample:
  "called (remove failing_kue \<lparr>jid = Some (Num 1), data = None,
      alreadyExist = False\<rparr> [removeJob] 
        \<lparr>cell = Some (Text (JObject [(''order-42'', Num 1)])), faults = [], trace = [],
         queue = ()\<rparr>) \<and>
   removeUniqueData_state (remove failing_kue \<lparr>jid = Some (Num 1), data = None,
       alreadyExist = False\<rparr> [removeJob] 
        \<lparr>cell = Some (Text (JObject [(''order-42'', Num 1)])), faults = [], trace = [],
         queue = ()\<rparr>) = Running \<and>
   trace (env (remove failing_kue \<lparr>jid = Some (Num 1), data = None,
       alreadyExist = False\<rparr> [removeJob, removeUniqueData, removeUniqueData] 
        \<lparr>cell = Some (Text (JObject [(''order-42'', Num 1)])), faults = [], trace = [],
         queue = ()\<rparr>))
   = [PreviousRemove \<lparr>jid = Some (Num 1), data = None, alreadyExist = False\<rparr>,
      TaskDone removeJob (Some (Error ''remove failed'')),
      Finalize (Some (Error ''remove failed'')),
      ClientGet, ClientSet (Text (JObject [])), TaskDone removeUniqueData None]"
  by (simp add: remove_def start_def deliver_def task_done_def finalize_def record_event_def
        failing_kue_def registry_evaluation Let_def)

section \<open>Keys that are no member of Object.prototype, in a registry that is a document\<close>

text \<open>
  An assignment sets the property, unless the name is \<^verbatim>\<open>__proto__\<close>, and leaves the
  other properties as they were.
\<close>

lemma map_of_place:
  "key \<notin> fst ` set object \<Longrightarrow>
   map_of (place n key v object) k = (if k = key then Some v else map_of object k)"
  by (induction object) (auto split: option.splits)

lemma map_of_put:
  "map_of (put key v object) k =
     (if k = key \<and> key \<noteq> ''__proto__'' then Some v else map_of object k)"
proof (cases "key \<in> fst ` set object")
  case True
  then show ?thesis
    by (simp add: put_def update_conv')
next
  case False
  then have "map_of object key = None"
    by (simp add: map_of_eq_None_iff)
  with False show ?thesis
    by (auto simp: put_def map_of_place map_add_def split: option.splits)
qed

lemma proto_inherited: "''__proto__'' \<in> set object_prototype"
  by (simp add: object_prototype_def)

lemma merge_put: "merge (JObject d) (put key i []) = JObject (put key i d)"
  by (cases "key = ''__proto__''") (simp_all add: merge_def put_empty)

lemma pick_ordinary:
  assumes "key \<notin> set object_prototype"
  shows "pick (JObject d) key = (case map_of d key of None \<Rightarrow> [] | Some i \<Rightarrow>
      [(key, Own i)])"
proof (cases "map_of d key")
  case None
  with assms show ?thesis
    by (simp add: pick_absent)
next
  case (Some i)
  moreover from assms have "key \<noteq> ''__proto__''"
    using proto_inherited by auto
  ultimately show ?thesis
    by (simp add: pick_own)
qed

text \<open>
  Merging an identifier under a key other than \<^verbatim>\<open>__proto__\<close> into a registry that is a
  document, when no redis command fails: the key has the identifier afterwards, whatever
  it had, every other key has what it had, and the document is written and returned.
\<close>

lemma merge_sets_entry:
  assumes "no_faults w" and "content w = JObject d" and "key \<noteq> ''__proto__''"
  shows "saveUniqueJobsData [(key, i)] w =
           ((None, JObject (put key i d)),
            w\<lparr>cell := Some (Text (JObject (put key i d))),
              faults := tl (tl (faults w)),
              trace := trace w @ [ClientGet, ClientSet (Text (JObject (put key i d)))]\<rparr>)"
    and "map_of (put key i d) k = (if k = key then Some i else map_of d k)"
  using assms by (simp_all add: saveUniqueJobsData_ok merge_def map_of_put)

text \<open>
  Reading a registry key that is missing, or holds the text \<^verbatim>\<open>null\<close> or a string that
  does not parse: the data is the empty mapping, without an error, and the lookup of a
  key that is no member of \<^verbatim>\<open>Object.prototype\<close> finds nothing.
\<close>

lemma read_tolerates_missing_content:
  assumes "next_fault w = None" and "cell w \<in> {None, Some Unparseable, Some (Text JNull)}"
  shows "getUniqueJobsData w = ((None, JObject []), issued ClientGet w)"
    and "key \<notin> set object_prototype \<Longrightarrow> getUniqueJobData key w = (Inr [],
        issued ClientGet w)"
  using assms
  by (simp_all add: getUniqueJobsData_ok getUniqueJobData_ok content_empty pick_absent)

text \<open>
  The cleanup of a registry that is a document (a parsed document has no key twice), when
  no redis command fails: no key has the identifier afterwards, a key other than
  \<^verbatim>\<open>__proto__\<close> with another identifier keeps it, the document is written and returned,
  and a key that had the identifier and is no member of \<^verbatim>\<open>Object.prototype\<close> is not
  found by the lookup.
\<close>

lemma map_of_omit_fold:
  assumes "distinct (map fst d)"
  shows "map_of (fold (\<lambda>(k, v) result. if p v then result else put k v result) d acc) k =
           (case map_of d k of
              Some v \<Rightarrow> if p v \<or> k = ''__proto__'' then map_of acc k else Some v
            | None \<Rightarrow> map_of acc k)"
  using assms
proof (induction d arbitrary: acc)
  case Nil
  then show ?case by simp
next
  case (Cons a d)
  obtain k0 v0 where a: "a = (k0, v0)"
    by (cases a)
  from Cons.prems a have n: "map_of d k0 = None" and dd: "distinct (map fst d)"
    by (simp_all add: map_of_eq_None_iff)
  show ?case
    using n by (auto simp: a Cons.IH [OF dd] map_of_put split: option.splits)
qed

lemma cleanup_removes_entries:
  assumes "no_faults w" and "content w = JObject d" and "distinct (map fst d)"
  shows "\<exists>d'. removeUniqueJobData (Some i) w =
                 ((None, JObject d'),
                  w\<lparr>cell := Some (Text (JObject d')),
                    faults := tl (tl (faults w)),
                    trace := trace w @ [ClientGet, ClientSet (Text (JObject d'))]\<rparr>) \<and>
               (\<forall>k. map_of d' k \<noteq> Some i) \<and>
               (\<forall>k v. k \<noteq> ''__proto__'' \<and> v \<noteq> i \<and> map_of d k =
                   Some v \<longrightarrow>
                      map_of d' k = Some v) \<and>
               (\<forall>k. k \<notin> set object_prototype \<and> map_of d k = Some i
                   \<longrightarrow>
                    pick (JObject d') k = [])"
proof -
  let ?d' = "fold (\<lambda>(k, v) result. if v = i then result else put k v result) d []"
  have o: "omit (content w) (\<lambda>value. value = i) = JObject ?d'"
    by (simp add: omit_def assms(2))
  have m: "map_of ?d' k =
      (case map_of d k of
         Some v \<Rightarrow> if v = i \<or> k = ''__proto__'' then None else Some v
       | None \<Rightarrow> None)" for k
    using map_of_omit_fold [OF assms(3), of "\<lambda>v. v = i" "[]" k]
    by (auto split: option.splits)
  have "next_fault (issued ClientGet w) = None"
    using assms(1) by (simp add: no_faults_next no_faults_issued)
  then have r: "removeUniqueJobData (Some i) w =
      ((None, JObject ?d'),
       w\<lparr>cell := Some (Text (JObject ?d')),
         faults := tl (tl (faults w)),
         trace := trace w @ [ClientGet, ClientSet (Text (JObject ?d'))]\<rparr>)"
    using assms(1)
    by (simp add: removeUniqueJobData_read_ok no_faults_next client_set_ok JSON_stringify_def
          issued_def o)
  have a: "\<forall>k. map_of ?d' k \<noteq> Some i"
    by (simp add: m split: option.splits)
  have b: "\<forall>k v. k \<noteq> ''__proto__'' \<and> v \<noteq> i \<and> map_of d k = Some v
      \<longrightarrow> map_of ?d' k = Some v"
    by (simp add: m)
  have c: "\<forall>k. k \<notin> set object_prototype \<and> map_of d k = Some i
      \<longrightarrow> pick (JObject ?d') k = []"
    by (simp add: pick_ordinary m)
  from r a b c show ?thesis
    by blast
qed

text \<open>
  Two submissions in a row of jobs that carry the same key, when the key is no member of
  \<^verbatim>\<open>Object.prototype\<close>, the registry reads as a document and no redis command fails.
  The first submission completes without error with a job that has an identifier. The
  engine leaves the data of a job alone when saving, fetches by identifier, and can still
  fetch that job, with its data. Then the second submission completes without error with
  a job of the same identifier, flagged \<^verbatim>\<open>alreadyExist\<close>.
\<close>

lemma save_unique:
  assumes "isUniqueJob this = Some key" and "next_fault w = None"
  shows "save kue this w =
           (case tryGetExistingOrSaveJob kue this (pick (content w) key) (issued ClientGet w) of
              ((Some e, job), w2) \<Rightarrow> (Done (Some e) job, w2)
            | ((None, job), w2) \<Rightarrow> saveUniqueJobsData' job w2)"
  using assms by (simp add: save_def getUniqueJobData_ok)

lemma isUniqueJob_SomeD:
  "isUniqueJob this = Some key \<Longrightarrow> \<exists>d. data this = Some d \<and> map_of d
      ''unique'' = Some key"
  by (auto simp: isUniqueJob_def split: option.splits if_splits)

lemma saveUniqueJobsData'_Done:
  assumes "saveUniqueJobsData' job w = (Done error (Some a'), w1)"
    and "no_faults w" and "content w = JObject d" and "jid a' = Some i"
  shows "job = Some a' \<and> no_faults w1 \<and>
         (\<exists>dj. data a' = Some dj \<and>
            content w1 =
              JObject (put (case map_of dj ''unique'' of None \<Rightarrow> ''undefined'' | Some u
                  \<Rightarrow> u)
                         i d))"
proof -
  from assms(1) obtain j dj where j: "job = Some j" "data j = Some dj"
    by (auto simp: saveUniqueJobsData'_def split: option.splits)
  from register_job [OF assms(2) j(2)] assms(1) j(1)
  have a: "a' = j"
    and w1: "w1 = w\<lparr>cell := Some (Text (merge (content w) (registration j))),
                faults := tl (tl (faults w)),
                trace := trace w @
                  [ClientGet, ClientSet (Text (merge (content w) (registration j)))]\<rparr>"
    by auto
  have "merge (content w) (registration j) =
      JObject (put (case map_of dj ''unique'' of None \<Rightarrow> ''undefined'' | Some u
          \<Rightarrow> u) i d)"
    using assms(3,4) a j(2) by (simp add: registration_def merge_put)
  with a j w1 assms(2) show ?thesis
    by (simp add: no_faults_def no_faults_tl content_def)
qed

lemma first_submission_registers:
  assumes "isUniqueJob a = Some key" and "key \<notin> set object_prototype"
    and "no_faults w" and "content w = JObject d"
    and "engine_contract kue"
    and "save kue a w = (Done None (Some a'), w1)" and "jid a' = Some i"
  shows "no_faults w1 \<and> (\<exists>d1. content w1 = JObject d1 \<and> map_of d1 key = Some i)"
proof (cases "map_of d key")
  case None
  obtain e this' q where ps: "previousSave kue a (queue w) = ((e, this'), q)"
    by (metis prod.exhaust)
  let ?w' = "(issued ClientGet w)\<lparr>queue := q,
      trace := trace (issued ClientGet w) @ [PreviousSave a]\<rparr>"
  have p: "pick (content w) key = []"
    using None assms(2,4) by (simp add: pick_ordinary)
  from assms(6) have s: "saveUniqueJobsData' (Some this') ?w' = (Done None (Some a'), w1)"
    using ps
    by (cases e) (simp_all add: save_unique [OF assms(1) no_faults_next [OF assms(3)]] p
                    absent_create)
  have n: "no_faults ?w'" "content ?w' = JObject d"
    using assms(3,4) by (simp_all add: no_faults_def no_faults_tl)
  from saveUniqueJobsData'_Done [OF s n assms(7)]
  obtain dj where a: "this' = a'" and w1: "no_faults w1" and dj: "data a' = Some dj"
    and c: "content w1 =
      JObject (put (case map_of dj ''unique'' of None \<Rightarrow> ''undefined'' | Some u
          \<Rightarrow> u) i d)"
    by auto
  from assms(5) have "data (snd (fst (previousSave kue a (queue w)))) = data a"
    by (simp add: engine_contract_def)
  then have "data this' = data a"
    by (simp add: ps)
  with a dj isUniqueJob_SomeD [OF assms(1)] have "map_of dj ''unique'' = Some key"
    by auto
  moreover from assms(2) have "key \<noteq> ''__proto__''"
    using proto_inherited by auto
  ultimately have "map_of (put (case map_of dj ''unique'' of None \<Rightarrow> ''undefined'' |
      Some u \<Rightarrow> u) i d) key = Some i"
    by (simp add: map_of_put)
  with w1 c show ?thesis
    by simp
next
  case (Some i0)
  obtain e job q where g: "Job_get kue (Some (Own i0)) (queue w) = ((e, job), q)"
    by (metis prod.exhaust)
  let ?w' = "(issued ClientGet w)\<lparr>queue := q,
      trace := trace (issued ClientGet w) @ [JobGet (Some (Own i0))]\<rparr>"
  let ?job = "map_option (\<lambda>j. j\<lparr>alreadyExist := True\<rparr>) job"
  have p: "pick (content w) key = [(key, Own i0)]"
    using Some assms(2,4) by (simp add: pick_ordinary)
  from assms(6) have s: "saveUniqueJobsData' ?job ?w' = (Done None (Some a'), w1)"
    using g
    by (cases e) (simp_all add: save_unique [OF assms(1) no_faults_next [OF assms(3)]] p
                    existing_fetch)
  have n: "no_faults ?w'" "content ?w' = JObject d"
    using assms(3,4) by (simp_all add: no_faults_def no_faults_tl)
  from saveUniqueJobsData'_Done [OF s n assms(7)]
  obtain dj where a: "?job = Some a'" and w1: "no_faults w1" and dj: "data a' = Some dj"
    and c: "content w1 =
      JObject (put (case map_of dj ''unique'' of None \<Rightarrow> ''undefined'' | Some u
          \<Rightarrow> u) i d)"
    by auto
  from a obtain j0 where j0: "job = Some j0" "a' = j0\<lparr>alreadyExist := True\<rparr>"
    by auto
  from assms(5)
  have "snd (fst (Job_get kue (Some (Own i0)) (queue w))) = Some j0 \<longrightarrow>
        map_option Own (jid j0) = Some (Own i0)"
    unfolding engine_contract_def by blast
  then have "jid j0 = Some i0"
    by (auto simp: g j0(1))
  with j0 assms(7) have "i = i0"
    by simp
  then have "map_of (put (case map_of dj ''unique'' of None \<Rightarrow> ''undefined'' | Some u
      \<Rightarrow> u) i d) key = Some i"
    using Some by (simp add: map_of_put)
  with w1 c show ?thesis
    by simp
qed

lemma filter_head:
  assumes "filter P xs = y # ys"
  shows "P y"
proof -
  have "y \<in> set (filter P xs)"
    by (simp add: assms)
  then show ?thesis
    by simp
qed

lemma memory_kue_contract: "engine_contract memory_kue"
  unfolding engine_contract_def
proof (intro conjI allI impI)
  fix this :: job and q :: "job list"
  show "data (snd (fst (previousSave memory_kue this q))) = data this"
    by (simp add: memory_kue_save)
next
  fix i q j
  assume "snd (fst (Job_get memory_kue i q)) = Some j"
  then obtain js where "filter (\<lambda>j. map_option Own (jid j) = i) q = j # js"
    by (auto simp: memory_kue_get split: list.splits)
  then show "map_option Own (jid j) = i"
    by (rule filter_head)
qed

lemma ordinary_key_submitted_twice:
  assumes "isUniqueJob a = Some key" and "isUniqueJob b = Some key"
    and "key \<notin> set object_prototype"
    and "no_faults w" and "content w = JObject d"
    and "engine_contract kue"
    and "save kue a w = (Done None (Some a'), w1)" and "jid a' = Some i"
    and "Job_get kue (Some (Own i)) (queue w1) = ((None, Some j), q)" and "data j = Some dj"
  shows "\<exists>b' w2. save kue b w1 = (Done None (Some b'), w2) \<and>
                 jid b' = jid a' \<and> alreadyExist b'"
proof -
  from first_submission_registers [OF assms(1,3,4,5,6,7,8)]
  obtain d1 where w1: "no_faults w1" "content w1 = JObject d1" "map_of d1 key = Some i"
    by blast
  then have p: "pick (content w1) key = [(key, Own i)]"
    using assms(3) by (simp add: pick_ordinary)
  from assms(6)
  have "snd (fst (Job_get kue (Some (Own i)) (queue w1))) = Some j \<longrightarrow>
        map_option Own (jid j) = Some (Own i)"
    unfolding engine_contract_def by blast
  then have "jid j = Some i"
    by (auto simp: assms(9))
  with save_existing [OF assms(2) w1(1) p assms(9,10)] assms(8) show ?thesis
    by simp
qed

end
